theory Spec2Isabelle
  imports Main "HOL-Library.Word"
begin

section \<open>Constants and data of main.go\<close>

text \<open>
  \<^verbatim>\<open>BufferLimit = 2<<16 - 1\<close>. In Go the shift binds tighter than the subtraction
  (\<^verbatim>\<open><<\<close> has precedence 5, \<^verbatim>\<open>-\<close> precedence 4), so the constant is
  \<open>(2 << 16) - 1\<close>.
\<close>

definition BufferLimit :: nat where
  "BufferLimit = push_bit 16 2 - 1"

definition UDPDisconnectSequence :: string where
  "UDPDisconnectSequence = ''~.''"

text \<open>A \<^verbatim>\<open>net.Addr\<close> value; the nil interface value is \<open>None\<close>.\<close>

type_synonym addr = string

text \<open>Go \<^verbatim>\<open>error\<close> values: the code only tells \<^verbatim>\<open>io.EOF\<close> from everything else.\<close>

datatype error = EOF | OtherError string

record Progress =
  remoteAddr :: "addr option"
  bytes :: "64 word"

text \<open>The two directions of a session: the goroutine started by
  \<^verbatim>\<open>go copy(con, os.Stdout, ra)\<close> and the one started by \<^verbatim>\<open>go copy(os.Stdin, con, ra)\<close>.\<close>

datatype dir = Inbound | Outbound

datatype resource = Con | Stdin | Stdout

fun reader :: "dir \<Rightarrow> resource" where
  "reader Inbound = Con"
| "reader Outbound = Stdin"

fun writer :: "dir \<Rightarrow> resource" where
  "writer Inbound = Stdout"
| "writer Outbound = Con"

text \<open>The type switch \<^verbatim>\<open>r.(*net.UDPConn)\<close>: \<^verbatim>\<open>main\<close> passes a \<^verbatim>\<open>*net.UDPConn\<close> to
  \<^verbatim>\<open>TransferPackets\<close>, the standard streams are \<^verbatim>\<open>*os.File\<close>.\<close>

fun is_UDPConn :: "resource \<Rightarrow> bool" where
  "is_UDPConn Con = True"
| "is_UDPConn Stdin = False"
| "is_UDPConn Stdout = False"

section \<open>The environment: reads, writes, log\<close>

text \<open>What one \<^verbatim>\<open>ReadFrom(buf)\<close> or \<^verbatim>\<open>Read(buf)\<close> returns: the bytes placed in
  \<^verbatim>\<open>buf[0:n]\<close> (so \<open>n\<close> is their number), the sender address and the error.\<close>

record read_result =
  rr_data :: string
  rr_addr :: "addr option"
  rr_err :: "error option"

text \<open>The answer of the destination to one write: all of the unit accepted, or an error
  after some prefix was accepted.\<close>

datatype wresp = WriteOk | WriteFail nat error

text \<open>\<^verbatim>\<open>con.WriteTo(buf[0:n], ra)\<close> names its destination; \<^verbatim>\<open>w.Write(buf[0:n])\<close> uses the
  address the endpoint is bound to.\<close>

datatype dest = ToAddr "addr option" | PreBound

record wr_event =
  ev_res :: resource
  ev_data :: string
  ev_dest :: dest
  ev_err :: "error option"

datatype log_entry =
    LogError "addr option" error
  | LogDatagramReceived "addr option"
  | LogClosed "addr option" "64 word"
  | LogStopped "addr option" "64 word"

text \<open>Which send statement a channel message comes from: line 76 or line 104.\<close>

datatype report_kind = AddrReport | FinalReport

section \<open>TransferPackets as a transition system\<close>

text \<open>The local variables of one \<^verbatim>\<open>copy\<close> goroutine that live across iterations.\<close>

record locals =
  ra :: "addr option"
  nbytes :: "64 word"

text \<open>Where a \<^verbatim>\<open>copy\<close> goroutine stands: at the top of the loop, blocked in the send of
  line 76 (with the result of the read still to be examined), between the read and
  line 81, blocked in the send of line 104, returned, or panicked.\<close>

datatype gstate =
    G_NotStarted
  | G_Loop locals
  | G_SendAddr locals read_result
  | G_Process locals read_result
  | G_SendFinal locals
  | G_Done
  | G_Panicked

text \<open>Where the body of \<^verbatim>\<open>TransferPackets\<close> stands.\<close>

datatype ostate = O_Init | O_WaitAddr | O_LaunchOut | O_Wait1 | O_Wait2 | O_Returned

text \<open>The state of a session: \<open>con_remote\<close> is \<^verbatim>\<open>con.RemoteAddr()\<close> (nil for a listening
  endpoint); \<open>rd_script\<close> holds what the successive reads of each source will return and
  \<open>wr_script\<close> what each destination will answer to its successive writes; \<open>closed\<close> are
  the resources closed so far; \<open>outputs\<close>, \<open>logs\<close> and \<open>sent\<close> are the traces of the
  writes, of the log lines and of the values that went through the channel \<open>c\<close>;
  \<open>crashed\<close> tells that a panic has ended the process; \<open>orch\<close> and \<open>orch_ra\<close> are the
  position and the variable \<open>ra\<close> of the body of \<^verbatim>\<open>TransferPackets\<close>; \<open>g\<close> gives the
  position of each \<^verbatim>\<open>copy\<close> goroutine.\<close>

record pstate =
  con_remote :: "addr option"
  rd_script :: "resource \<Rightarrow> read_result list"
  wr_script :: "resource \<Rightarrow> wresp list"
  closed :: "resource set"
  outputs :: "wr_event list"
  logs :: "log_entry list"
  sent :: "(dir \<times> report_kind \<times> Progress) list"
  crashed :: bool
  orch :: ostate
  orch_ra :: "addr option"
  g :: "dir \<Rightarrow> gstate"

definition closed_error :: error where
  "closed_error = OtherError ''use of closed file or network connection''"

definition invalid_argument :: error where
  "invalid_argument = OtherError ''invalid argument''"

text \<open>One read into \<^verbatim>\<open>buf\<close>, which has \<open>BufferLimit\<close> bytes. A closed source fails; a
  source with nothing to deliver blocks (\<open>None\<close>).\<close>

definition read_from :: "resource \<Rightarrow> pstate \<Rightarrow> (read_result \<times> pstate) option" where
  "read_from r s =
     (if r \<in> closed s
      then Some (\<lparr>rr_data = [], rr_addr = None, rr_err = Some closed_error\<rparr>, s)
      else case rd_script s r of
             [] \<Rightarrow> None
           | x # xs \<Rightarrow>
               Some (x\<lparr>rr_data := take BufferLimit (rr_data x)\<rparr>,
                     s\<lparr>rd_script := (rd_script s)(r := xs)\<rparr>))"

text \<open>One write of a unit: the number of bytes written and the error, as
  \<^verbatim>\<open>n, err = ...\<close> receives them. A closed destination fails, and so does
  \<^verbatim>\<open>WriteTo\<close> with a nil address; otherwise the destination gives the scripted answer
  to this write, and accepts the unit once the script is used up. The event is recorded with the bytes
  accepted.\<close>

definition write_answer :: "resource \<Rightarrow> dest \<Rightarrow> string \<Rightarrow> pstate \<Rightarrow> nat \<times> error option" where
  "write_answer w d u s =
     (if w \<in> closed s then (0, Some closed_error)
      else if d = ToAddr None then (0, Some invalid_argument)
      else case wr_script s w of
             [] \<Rightarrow> (length u, None)
           | WriteOk # _ \<Rightarrow> (length u, None)
           | WriteFail k e # _ \<Rightarrow> (min k (length u), Some e))"

definition write_to :: "resource \<Rightarrow> dest \<Rightarrow> string \<Rightarrow> pstate \<Rightarrow> (nat \<times> error option) \<times> pstate" where
  "write_to w d u s =
     (let (k, e) = write_answer w d u s
      in ((k, e),
          s\<lparr>wr_script := (wr_script s)(w := tl (wr_script s w)),
            outputs := outputs s @ [\<lparr>ev_res = w, ev_data = take k u, ev_dest = d, ev_err = e\<rparr>]\<rparr>))"

definition log_printf :: "log_entry \<Rightarrow> pstate \<Rightarrow> pstate" where
  "log_printf e s = s\<lparr>logs := logs s @ [e]\<rparr>"

definition set_g :: "dir \<Rightarrow> gstate \<Rightarrow> pstate \<Rightarrow> pstate" where
  "set_g d x s = s\<lparr>g := (g s)(d := x)\<rparr>"

text \<open>The deferred function of \<^verbatim>\<open>copy\<close>: \<^verbatim>\<open>r.Close(); w.Close()\<close>.\<close>

definition close_both :: "dir \<Rightarrow> pstate \<Rightarrow> pstate" where
  "close_both d s = s\<lparr>closed := closed s \<union> {reader d, writer d}\<rparr>"

text \<open>A panic in a goroutine runs its deferred calls and then ends the whole process.\<close>

definition panic :: "dir \<Rightarrow> pstate \<Rightarrow> pstate" where
  "panic d s = (set_g d G_Panicked (close_both d s))\<lparr>crashed := True\<rparr>"

text \<open>The slice expression \<^verbatim>\<open>buf[0:hi]\<close> on the bytes read: out of range panics.\<close>

definition slice_to :: "string \<Rightarrow> int \<Rightarrow> string option" where
  "slice_to u hi = (if 0 \<le> hi \<and> hi \<le> int (length u) then Some (take (nat hi) u) else None)"

text \<open>Lines 81 to 102: the rest of an iteration once the read (and the address report)
  is done.\<close>

definition process :: "dir \<Rightarrow> locals \<Rightarrow> read_result \<Rightarrow> pstate \<Rightarrow> pstate" where
  "process d l rr s =
     (case rr_err rr of
        Some e \<Rightarrow>
          set_g d (G_SendFinal l) (if e \<noteq> EOF then log_printf (LogError (ra l) e) s else s)
      | None \<Rightarrow>
          (case slice_to (rr_data rr) (int (length (rr_data rr)) - 1) of
             None \<Rightarrow> panic d s
           | Some u \<Rightarrow>
               if u = UDPDisconnectSequence then set_g d (G_SendFinal l) s
               else
                 (let dst = (if is_UDPConn (writer d) \<and> con_remote s = None
                             then ToAddr (ra l) else PreBound);
                      ((k, err), s') = write_to (writer d) dst (rr_data rr) s
                  in case err of
                       Some e \<Rightarrow> set_g d (G_SendFinal l) (log_printf (LogError (ra l) e) s')
                     | None \<Rightarrow> set_g d (G_Loop (l\<lparr>nbytes := nbytes l + of_nat k\<rparr>)) s')))"

text \<open>What the body of \<^verbatim>\<open>TransferPackets\<close> does with a value received from the channel
  (lines 111 to 113, 117 and 118, 119 and 120).\<close>

definition receiving :: "pstate \<Rightarrow> bool" where
  "receiving s = (orch s = O_WaitAddr \<or> orch s = O_Wait1 \<or> orch s = O_Wait2)"

definition receive :: "Progress \<Rightarrow> pstate \<Rightarrow> pstate" where
  "receive p s =
     (case orch s of
        O_WaitAddr \<Rightarrow>
          s\<lparr>orch_ra := remoteAddr p,
            logs := logs s @ [LogDatagramReceived (remoteAddr p)],
            orch := O_LaunchOut\<rparr>
      | O_Wait1 \<Rightarrow> s\<lparr>logs := logs s @ [LogClosed (orch_ra s) (bytes p)], orch := O_Wait2\<rparr>
      | O_Wait2 \<Rightarrow> s\<lparr>logs := logs s @ [LogStopped (orch_ra s) (bytes p)], orch := O_Returned\<rparr>
      | _ \<Rightarrow> s)"

text \<open>A send on the unbuffered channel \<open>c\<close>: it happens together with the receive.\<close>

definition send :: "dir \<Rightarrow> report_kind \<Rightarrow> Progress \<Rightarrow> pstate \<Rightarrow> pstate" where
  "send d k p s = receive p (s\<lparr>sent := sent s @ [(d, k, p)]\<rparr>)"

text \<open>One step of a \<^verbatim>\<open>copy\<close> goroutine; \<open>None\<close> when it cannot move.\<close>

definition copy_step :: "dir \<Rightarrow> pstate \<Rightarrow> pstate option" where
  "copy_step d s =
     (case g s d of
        G_Loop l \<Rightarrow>
          (case read_from (reader d) s of
             None \<Rightarrow> None
           | Some (rr, s') \<Rightarrow>
               if is_UDPConn (reader d) \<and> con_remote s' = None \<and> ra l = None
               then Some (set_g d (G_SendAddr (l\<lparr>ra := rr_addr rr\<rparr>) rr) s')
               else Some (set_g d (G_Process l rr) s'))
      | G_SendAddr l rr \<Rightarrow>
          if receiving s
          then Some (set_g d (G_Process l rr) (send d AddrReport \<lparr>remoteAddr = ra l, bytes = 0\<rparr> s))
          else None
      | G_Process l rr \<Rightarrow> Some (process d l rr s)
      | G_SendFinal l \<Rightarrow>
          if receiving s
          then Some (close_both d
                 (set_g d G_Done (send d FinalReport \<lparr>remoteAddr = None, bytes = nbytes l\<rparr> s)))
          else None
      | _ \<Rightarrow> None)"

text \<open>One step of the body of \<^verbatim>\<open>TransferPackets\<close> that is not a receive: lines 107 to
  110, and line 115.\<close>

definition orch_step :: "pstate \<Rightarrow> pstate option" where
  "orch_step s =
     (case orch s of
        O_Init \<Rightarrow>
          Some (s\<lparr>orch_ra := con_remote s,
                  g := (g s)(Inbound := G_Loop \<lparr>ra = con_remote s, nbytes = 0\<rparr>),
                  orch := (if con_remote s = None then O_WaitAddr else O_LaunchOut)\<rparr>)
      | O_LaunchOut \<Rightarrow>
          Some (s\<lparr>g := (g s)(Outbound := G_Loop \<lparr>ra = orch_ra s, nbytes = 0\<rparr>),
                  orch := O_Wait1\<rparr>)
      | _ \<Rightarrow> None)"

datatype actor = Orch | Go dir

definition step :: "actor \<Rightarrow> pstate \<Rightarrow> pstate option" where
  "step a s =
     (if crashed s then None
      else case a of Orch \<Rightarrow> orch_step s | Go d \<Rightarrow> copy_step d s)"

text \<open>A run under a schedule: an actor that cannot move is skipped.\<close>

fun run :: "actor list \<Rightarrow> pstate \<Rightarrow> pstate" where
  "run [] s = s"
| "run (a # as) s = run as (case step a s of None \<Rightarrow> s | Some s' \<Rightarrow> s')"

text \<open>The state in which \<^verbatim>\<open>TransferPackets(con)\<close> is entered.\<close>

definition TransferPackets :: "addr option \<Rightarrow> (resource \<Rightarrow> read_result list) \<Rightarrow>
    (resource \<Rightarrow> wresp list) \<Rightarrow> pstate" where
  "TransferPackets remote rd wr =
     \<lparr>con_remote = remote, rd_script = rd, wr_script = wr, closed = {}, outputs = [],
      logs = [], sent = [], crashed = False, orch = O_Init, orch_ra = None,
      g = (\<lambda>_. G_NotStarted)\<rparr>"

section \<open>TransferStreams as a transition system\<close>

text \<open>Where a \<^verbatim>\<open>copy\<close> goroutine of \<^verbatim>\<open>TransferStreams\<close> stands: inside
  \<^verbatim>\<open>io.Copy\<close>, blocked in the send of line 38 with the value \<^verbatim>\<open>uint64(n)\<close>, or
  returned.\<close>

datatype sgstate = S_NotStarted | S_Copying | S_SendFinal "64 word" | S_Done

datatype sostate = SO_Init | SO_LaunchOut | SO_Wait1 | SO_Wait2 | SO_Returned

text \<open>\<^verbatim>\<open>io.Copy\<close> is library code: what it returns in each direction, the number of
  bytes copied (an \<^verbatim>\<open>int64\<close>) and the error, is a parameter of the session;
  \<open>None\<close> is a copy that never returns.\<close>

record sstate =
  s_remote :: "addr option"
  io_Copy :: "dir \<Rightarrow> (int \<times> error option) option"
  s_closed :: "resource set"
  s_logs :: "log_entry list"
  s_sent :: "(dir \<times> Progress) list"
  s_orch :: sostate
  s_g :: "dir \<Rightarrow> sgstate"

text \<open>The receives of lines 44 to 47.\<close>

definition s_receiving :: "sstate \<Rightarrow> bool" where
  "s_receiving s = (s_orch s = SO_Wait1 \<or> s_orch s = SO_Wait2)"

definition s_receive :: "Progress \<Rightarrow> sstate \<Rightarrow> sstate" where
  "s_receive p s =
     (case s_orch s of
        SO_Wait1 \<Rightarrow> s\<lparr>s_logs := s_logs s @ [LogClosed (s_remote s) (bytes p)], s_orch := SO_Wait2\<rparr>
      | SO_Wait2 \<Rightarrow>
          s\<lparr>s_logs := s_logs s @ [LogStopped (s_remote s) (bytes p)], s_orch := SO_Returned\<rparr>
      | _ \<Rightarrow> s)"

text \<open>One step of a \<^verbatim>\<open>copy\<close> goroutine (lines 29 to 39): \<^verbatim>\<open>io.Copy\<close> returns and its error
  is logged, or the report is sent and the deferred function closes both ends.\<close>

definition s_copy_step :: "dir \<Rightarrow> sstate \<Rightarrow> sstate option" where
  "s_copy_step d s =
     (case s_g s d of
        S_Copying \<Rightarrow>
          (case io_Copy s d of
             None \<Rightarrow> None
           | Some (n, err) \<Rightarrow>
               Some (s\<lparr>s_logs := s_logs s @
                          (case err of None \<Rightarrow> [] | Some e \<Rightarrow> [LogError (s_remote s) e]),
                       s_g := (s_g s)(d := S_SendFinal (word_of_int n))\<rparr>))
      | S_SendFinal b \<Rightarrow>
          if s_receiving s
          then Some ((s_receive \<lparr>remoteAddr = None, bytes = b\<rparr>
                        (s\<lparr>s_sent := s_sent s @ [(d, \<lparr>remoteAddr = None, bytes = b\<rparr>)]\<rparr>))
                     \<lparr>s_closed := s_closed s \<union> {reader d, writer d},
                      s_g := (s_g s)(d := S_Done)\<rparr>)
          else None
      | _ \<Rightarrow> None)"

text \<open>Lines 41 and 42.\<close>

definition s_orch_step :: "sstate \<Rightarrow> sstate option" where
  "s_orch_step s =
     (case s_orch s of
        SO_Init \<Rightarrow> Some (s\<lparr>s_g := (s_g s)(Inbound := S_Copying), s_orch := SO_LaunchOut\<rparr>)
      | SO_LaunchOut \<Rightarrow> Some (s\<lparr>s_g := (s_g s)(Outbound := S_Copying), s_orch := SO_Wait1\<rparr>)
      | _ \<Rightarrow> None)"

definition s_step :: "actor \<Rightarrow> sstate \<Rightarrow> sstate option" where
  "s_step a s = (case a of Orch \<Rightarrow> s_orch_step s | Go d \<Rightarrow> s_copy_step d s)"

fun s_run :: "actor list \<Rightarrow> sstate \<Rightarrow> sstate" where
  "s_run [] s = s"
| "s_run (a # as) s = s_run as (case s_step a s of None \<Rightarrow> s | Some s' \<Rightarrow> s')"

definition TransferStreams :: "addr option \<Rightarrow> (dir \<Rightarrow> (int \<times> error option) option) \<Rightarrow> sstate" where
  "TransferStreams remote cp =
     \<lparr>s_remote = remote, io_Copy = cp, s_closed = {}, s_logs = [], s_sent = [],
      s_orch = SO_Init, s_g = (\<lambda>_. S_NotStarted)\<rparr>"

section \<open>Measures on traces\<close>

text \<open>The bytes of the units whose write to \<open>w\<close> returned no error, and all the bytes
  that \<open>w\<close> accepted.\<close>

definition ok_bytes :: "resource \<Rightarrow> wr_event list \<Rightarrow> nat" where
  "ok_bytes w evs =
     sum_list (map (\<lambda>e. length (ev_data e)) (filter (\<lambda>e. ev_res e = w \<and> ev_err e = None) evs))"

definition accepted_bytes :: "resource \<Rightarrow> wr_event list \<Rightarrow> nat" where
  "accepted_bytes w evs =
     sum_list (map (\<lambda>e. length (ev_data e)) (filter (\<lambda>e. ev_res e = w) evs))"

text \<open>The byte counts of the final reports that direction \<open>d\<close> has sent.\<close>

definition final_counts :: "dir \<Rightarrow> (dir \<times> report_kind \<times> Progress) list \<Rightarrow> 64 word list" where
  "final_counts d ms = map (\<lambda>m. bytes (snd (snd m))) (filter (\<lambda>m. fst m = d \<and> fst (snd m) = FinalReport) ms)"

definition addr_reports :: "(dir \<times> report_kind \<times> Progress) list \<Rightarrow> (dir \<times> addr option) list" where
  "addr_reports ms = map (\<lambda>m. (fst m, remoteAddr (snd (snd m)))) (filter (\<lambda>m. fst (snd m) = AddrReport) ms)"

section \<open>Invariants\<close>

text \<open>The contract of \<^verbatim>\<open>(*net.UDPConn).ReadFrom\<close>: a read that returns no error returns the
  sender's address (the library builds it from the socket address of the datagram and
  returns nil only with an error).\<close>

definition addr_ok :: "read_result \<Rightarrow> bool" where
  "addr_ok x = (rr_err x = None \<longrightarrow> rr_addr x \<noteq> None)"

text \<open>The control invariant of a datagram session relates where the body of
  \<^verbatim>\<open>TransferPackets\<close> stands (\<open>ctl_at\<close>) to where the two goroutines stand. An inbound
  goroutine has \<open>learnt\<close> when it will send no address report any more; it is
  \<open>awaiting_addr\<close> before its address report is received; the outbound goroutine, once
  launched and not yet returned, is \<open>running_out\<close>.\<close>

fun learnt :: "addr option \<Rightarrow> gstate \<Rightarrow> bool" where
  "learnt cr (G_Loop l) = (cr \<noteq> None \<or> ra l \<noteq> None)"
| "learnt cr (G_Process l rr) = (rr_err rr = None \<longrightarrow> cr \<noteq> None \<or> ra l \<noteq> None)"
| "learnt cr (G_SendFinal l) = True"
| "learnt cr G_Panicked = True"
| "learnt cr _ = False"

fun running_out :: "gstate \<Rightarrow> bool" where
  "running_out (G_Loop l) = True"
| "running_out (G_Process l rr) = True"
| "running_out (G_SendFinal l) = True"
| "running_out G_Panicked = True"
| "running_out _ = False"

fun awaiting_addr :: "gstate \<Rightarrow> bool" where
  "awaiting_addr (G_Loop l) = (ra l = None)"
| "awaiting_addr (G_SendAddr l rr) = (rr_err rr = None \<longrightarrow> ra l \<noteq> None)"
| "awaiting_addr _ = False"

fun ctl_at :: "ostate \<Rightarrow> addr option \<Rightarrow> gstate \<Rightarrow> gstate \<Rightarrow> bool" where
  "ctl_at O_Init cr i out = (i = G_NotStarted \<and> out = G_NotStarted)"
| "ctl_at O_WaitAddr cr i out = (cr = None \<and> awaiting_addr i \<and> out = G_NotStarted)"
| "ctl_at O_LaunchOut cr i out = (learnt cr i \<and> out = G_NotStarted)"
| "ctl_at O_Wait1 cr i out = (learnt cr i \<and> running_out out)"
| "ctl_at O_Wait2 cr i out =
     ((i = G_Done \<and> running_out out) \<or> (learnt cr i \<and> out = G_Done))"
| "ctl_at O_Returned cr i out = (i = G_Done \<and> out = G_Done)"

definition ctl_inv :: "pstate \<Rightarrow> bool" where
  "ctl_inv s =
     (list_all addr_ok (rd_script s Con) \<and>
      ctl_at (orch s) (con_remote s) (g s Inbound) (g s Outbound))"

text \<open>The destination of the write of lines 92 to 97.\<close>

definition dst_of :: "dir \<Rightarrow> locals \<Rightarrow> pstate \<Rightarrow> dest" where
  "dst_of d l s = (if is_UDPConn (writer d) \<and> con_remote s = None then ToAddr (ra l) else PreBound)"

text \<open>The address invariant of a listening endpoint whose reads of \<^verbatim>\<open>con\<close> are
  \<open>xs\<close>: the address that the first read returns is the only one ever learned and
  used. Before the report is received nothing has been sent on the channel and the
  inbound goroutine is at its first read (\<open>pre_learn\<close>); afterwards the channel has
  carried that one address report and then final reports only (\<open>sent_ok\<close>), and the
  \<open>ra\<close> of the outbound goroutine is that address (\<open>out_ra_ok\<close>).\<close>

definition first_addr :: "read_result list \<Rightarrow> addr option" where
  "first_addr xs = (case xs of [] \<Rightarrow> None | x # _ \<Rightarrow> rr_addr x)"

fun pre_learn :: "read_result list \<Rightarrow> read_result list \<Rightarrow> bool \<Rightarrow> gstate \<Rightarrow> bool" where
  "pre_learn xs cur con_closed G_NotStarted = (cur = xs \<and> \<not> con_closed)"
| "pre_learn xs cur con_closed (G_Loop l) = (cur = xs \<and> \<not> con_closed)"
| "pre_learn xs cur con_closed (G_SendAddr l rr) = (ra l = first_addr xs)"
| "pre_learn xs cur con_closed _ = True"

fun out_ra_ok :: "addr option \<Rightarrow> gstate \<Rightarrow> bool" where
  "out_ra_ok a (G_Loop l) = (ra l = a)"
| "out_ra_ok a (G_SendAddr l rr) = (ra l = a)"
| "out_ra_ok a (G_Process l rr) = (ra l = a)"
| "out_ra_ok a (G_SendFinal l) = (ra l = a)"
| "out_ra_ok a _ = True"

fun sent_ok :: "addr option \<Rightarrow> (dir \<times> report_kind \<times> Progress) list \<Rightarrow> bool" where
  "sent_ok a [] = False"
| "sent_ok a (m # ms) =
     (m = (Inbound, AddrReport, \<lparr>remoteAddr = a, bytes = 0\<rparr>) \<and>
      list_all (\<lambda>m. fst (snd m) = FinalReport) ms)"

definition addr_inv :: "read_result list \<Rightarrow> pstate \<Rightarrow> bool" where
  "addr_inv xs s =
     (con_remote s = None \<and>
      (\<forall>e\<in>set (outputs s). ev_res e = Con \<longrightarrow>
          ev_dest e = ToAddr (first_addr xs) \<and> g s Outbound \<noteq> G_NotStarted) \<and>
      out_ra_ok (first_addr xs) (g s Outbound) \<and>
      (if orch s = O_Init \<or> orch s = O_WaitAddr
       then sent s = [] \<and> pre_learn xs (rd_script s Con) (Con \<in> closed s) (g s Inbound)
       else orch_ra s = first_addr xs \<and>
            sent_ok (first_addr xs) (sent s)))"

definition listen_inv :: "read_result list \<Rightarrow> pstate \<Rightarrow> bool" where
  "listen_inv xs s = (ctl_inv s \<and> addr_inv xs s)"

text \<open>The invariant of a stream session: control, and the reports against what
  \<^verbatim>\<open>io.Copy\<close> returns.\<close>

fun s_running :: "sgstate \<Rightarrow> bool" where
  "s_running S_Copying = True"
| "s_running (S_SendFinal b) = True"
| "s_running _ = False"

fun s_ctl_at :: "sostate \<Rightarrow> sgstate \<Rightarrow> sgstate \<Rightarrow> bool" where
  "s_ctl_at SO_Init i out = (i = S_NotStarted \<and> out = S_NotStarted)"
| "s_ctl_at SO_LaunchOut i out = (s_running i \<and> out = S_NotStarted)"
| "s_ctl_at SO_Wait1 i out = (s_running i \<and> s_running out)"
| "s_ctl_at SO_Wait2 i out = ((i = S_Done \<and> s_running out) \<or> (s_running i \<and> out = S_Done))"
| "s_ctl_at SO_Returned i out = (i = S_Done \<and> out = S_Done)"

fun s_count_ok :: "(int \<times> error option) option \<Rightarrow> Progress list \<Rightarrow> sgstate \<Rightarrow> bool" where
  "s_count_ok c ps (S_SendFinal b) = (ps = [] \<and> (\<exists>n e. c = Some (n, e) \<and> b = word_of_int n))"
| "s_count_ok c ps S_Done =
     (\<exists>n e. c = Some (n, e) \<and> ps = [\<lparr>remoteAddr = None, bytes = word_of_int n\<rparr>])"
| "s_count_ok c ps _ = (ps = [])"

definition s_reports :: "dir \<Rightarrow> (dir \<times> Progress) list \<Rightarrow> Progress list" where
  "s_reports d ms = map snd (filter (\<lambda>m. fst m = d) ms)"

definition s_inv :: "sstate \<Rightarrow> bool" where
  "s_inv s =
     (s_ctl_at (s_orch s) (s_g s Inbound) (s_g s Outbound) \<and>
      s_count_ok (io_Copy s Inbound) (s_reports Inbound (s_sent s)) (s_g s Inbound) \<and>
      s_count_ok (io_Copy s Outbound) (s_reports Outbound (s_sent s)) (s_g s Outbound))"

text \<open>The byte-count invariant of a datagram session: the counter \<open>bytes\<close> of a
  goroutine against the trace. \<open>tot\<close> is the count of the bytes written without error
  to its destination, \<open>finals\<close> the final reports it has sent.\<close>

fun count_ok :: "64 word \<Rightarrow> 64 word list \<Rightarrow> gstate \<Rightarrow> bool" where
  "count_ok tot finals G_NotStarted = (tot = 0 \<and> finals = [])"
| "count_ok tot finals (G_Loop l) = (nbytes l = tot \<and> finals = [])"
| "count_ok tot finals (G_SendAddr l rr) = (nbytes l = tot \<and> finals = [])"
| "count_ok tot finals (G_Process l rr) = (nbytes l = tot \<and> finals = [])"
| "count_ok tot finals (G_SendFinal l) = (nbytes l = tot \<and> finals = [])"
| "count_ok tot finals G_Done = (finals = [tot])"
| "count_ok tot finals G_Panicked = (finals = [])"

definition count_inv :: "pstate \<Rightarrow> bool" where
  "count_inv s =
     (count_ok (of_nat (ok_bytes Stdout (outputs s))) (final_counts Inbound (sent s)) (g s Inbound) \<and>
      count_ok (of_nat (ok_bytes Con (outputs s))) (final_counts Outbound (sent s)) (g s Outbound) \<and>
      (orch s = O_Init \<longrightarrow> g s Inbound = G_NotStarted) \<and>
      (orch s = O_Init \<or> orch s = O_WaitAddr \<or> orch s = O_LaunchOut \<longrightarrow>
         g s Outbound = G_NotStarted))"

section \<open>Example sessions\<close>

definition peer :: addr where
  "peer = ''192.0.2.7:40000''"

definition unit_from :: "addr \<Rightarrow> string \<Rightarrow> read_result" where
  "unit_from a u = \<lparr>rr_data = u, rr_addr = Some a, rr_err = None\<rparr>"

definition failed_read :: "error \<Rightarrow> read_result" where
  "failed_read e = \<lparr>rr_data = [], rr_addr = None, rr_err = Some e\<rparr>"

text \<open>A listening endpoint that receives the given results on \<^verbatim>\<open>con\<close> and nothing on
  standard input, all writes succeeding.\<close>

definition listen_session :: "read_result list \<Rightarrow> pstate" where
  "listen_session xs = TransferPackets None ((\<lambda>_. [])(Con := xs)) (\<lambda>_. [])"

definition other_peer :: addr where
  "other_peer = ''198.51.100.9:5353''"

text \<open>A whole session of a listening endpoint: two datagrams arrive, the second from
  another sender, then a disconnect line; two lines are typed on standard input.\<close>

definition demo_rd :: "resource \<Rightarrow> read_result list" where
  "demo_rd =
     (\<lambda>_. [])
       (Con := [unit_from peer ''hi'', unit_from other_peer ''from elsewhere'',
                unit_from other_peer (''~.'' @ [CHR 0x0A])],
        Stdin := [\<lparr>rr_data = ''yo'', rr_addr = None, rr_err = None\<rparr>,
                  \<lparr>rr_data = ''more'', rr_addr = None, rr_err = None\<rparr>])"

definition demo_session :: pstate where
  "demo_session = TransferPackets None demo_rd (\<lambda>_. [])"

text \<open>A stream session in which \<^verbatim>\<open>io.Copy\<close> copies 5 bytes each way.\<close>

definition demo_stream :: sstate where
  "demo_stream = TransferStreams (Some peer) (\<lambda>_. Some (5, None))"

definition demo_stream_schedule :: "actor list" where
  "demo_stream_schedule = [Orch, Orch, Go Outbound, Go Inbound, Go Inbound, Go Outbound]"

definition demo_schedule :: "actor list" where
  "demo_schedule =
     [Orch, Go Inbound, Go Inbound, Orch, Go Inbound, Go Inbound, Go Inbound,
      Go Outbound, Go Outbound, Go Inbound, Go Inbound, Go Inbound,
      Go Outbound, Go Outbound, Go Outbound]"

text \<open>A client session in which standard output accepts one byte of the first unit and
  then fails.\<close>

definition short_write_session :: pstate where
  "short_write_session =
     TransferPackets (Some peer) ((\<lambda>_. [])(Con := [unit_from peer ''ab'']))
       ((\<lambda>_. [])(Stdout := [WriteFail 1 (OtherError ''no space left on device'')]))"

definition refused_rd :: "resource \<Rightarrow> read_result list" where
  "refused_rd = (\<lambda>_. [])(Con := [failed_read (OtherError ''connection refused'')])"

section \<open>Local properties of one iteration\<close>

lemma BufferLimit_value: "BufferLimit = 131071"
  by (simp add: BufferLimit_def push_bit_eq_mult)

lemmas machine_defs = step_def orch_step_def copy_step_def read_from_def set_g_def
  TransferPackets_def BufferLimit_value send_def receive_def receiving_def close_both_def
  process_def slice_to_def write_to_def write_answer_def log_printf_def panic_def
  UDPDisconnectSequence_def

lemmas stream_defs = s_step_def s_orch_step_def s_copy_step_def s_receiving_def s_receive_def
  TransferStreams_def

lemmas example_defs = peer_def unit_from_def failed_read_def listen_session_def

lemma slice_to_butlast:
  "slice_to u (int (length u) - 1) = (if u = [] then None else Some (butlast u))"
  by (auto simp: slice_to_def butlast_conv_take nat_diff_distrib')

lemma process_error:
  "rr_err rr = Some e \<Longrightarrow>
   process d l rr s =
     s\<lparr>logs := logs s @ (if e = EOF then [] else [LogError (ra l) e]),
       g := (g s)(d := G_SendFinal l)\<rparr>"
  by (simp add: process_def set_g_def log_printf_def)

lemma process_marker:
  "rr_err rr = None \<Longrightarrow> butlast (rr_data rr) = UDPDisconnectSequence \<Longrightarrow>
   process d l rr s = s\<lparr>g := (g s)(d := G_SendFinal l)\<rparr>"
  by (auto simp: process_def slice_to_butlast set_g_def UDPDisconnectSequence_def)

lemma process_empty:
  "rr_err rr = None \<Longrightarrow> rr_data rr = [] \<Longrightarrow> process d l rr s = panic d s"
  by (simp add: process_def slice_to_def)

lemma process_frame:
  "con_remote (process d l rr s) = con_remote s"
  "rd_script (process d l rr s) = rd_script s"
  "orch (process d l rr s) = orch s"
  "orch_ra (process d l rr s) = orch_ra s"
  "sent (process d l rr s) = sent s"
  "d' \<noteq> d \<Longrightarrow> g (process d l rr s) d' = g s d'"
  by (auto simp: process_def set_g_def log_printf_def panic_def close_both_def write_to_def
        Let_def split: option.splits prod.splits)

lemma process_next:
  "g (process d l rr s) d = G_SendFinal l \<or> g (process d l rr s) d = G_Panicked \<or>
   (rr_err rr = None \<and> (\<exists>k. g (process d l rr s) d = G_Loop (l\<lparr>nbytes := nbytes l + k\<rparr>)))"
  by (auto simp: process_def set_g_def log_printf_def panic_def close_both_def write_to_def
        Let_def split: option.splits prod.splits)

lemma process_cases:
  obtains
    (read_failed) e where "rr_err rr = Some e"
      "process d l rr s = s\<lparr>logs := logs s @ (if e = EOF then [] else [LogError (ra l) e]),
                              g := (g s)(d := G_SendFinal l)\<rparr>"
  | (panicked) "rr_err rr = None" "rr_data rr = []" "process d l rr s = panic d s"
  | (marker) "rr_err rr = None" "process d l rr s = s\<lparr>g := (g s)(d := G_SendFinal l)\<rparr>"
  | (write_failed) k e where "rr_err rr = None"
      "process d l rr s =
         s\<lparr>wr_script := (wr_script s)(writer d := tl (wr_script s (writer d))),
           outputs := outputs s @ [\<lparr>ev_res = writer d, ev_data = take k (rr_data rr),
                                    ev_dest = dst_of d l s, ev_err = Some e\<rparr>],
           logs := logs s @ [LogError (ra l) e],
           g := (g s)(d := G_SendFinal l)\<rparr>"
  | (written) "rr_err rr = None"
      "process d l rr s =
         s\<lparr>wr_script := (wr_script s)(writer d := tl (wr_script s (writer d))),
           outputs := outputs s @ [\<lparr>ev_res = writer d, ev_data = rr_data rr,
                                    ev_dest = dst_of d l s, ev_err = None\<rparr>],
           g := (g s)(d := G_Loop (l\<lparr>nbytes := nbytes l + of_nat (length (rr_data rr))\<rparr>))\<rparr>"
proof (cases "rr_err rr")
  case (Some e)
  then show ?thesis using read_failed [of e] by (simp add: process_error)
next
  case None
  show ?thesis
  proof (cases "rr_data rr = []")
    case True
    then show ?thesis using panicked None by (simp add: process_empty)
  next
    case ne: False
    show ?thesis
    proof (cases "butlast (rr_data rr) = UDPDisconnectSequence")
      case True
      then show ?thesis using marker None by (simp add: process_marker)
    next
      case False
      obtain k e where wa: "write_answer (writer d) (dst_of d l s) (rr_data rr) s = (k, e)"
        by (cases "write_answer (writer d) (dst_of d l s) (rr_data rr) s") auto
      show ?thesis
      proof (cases e)
        case eN: None
        then have k: "k = length (rr_data rr)"
          using wa by (auto simp: write_answer_def split: if_splits list.splits wresp.splits)
        have "process d l rr s =
         s\<lparr>wr_script := (wr_script s)(writer d := tl (wr_script s (writer d))),
           outputs := outputs s @ [\<lparr>ev_res = writer d, ev_data = rr_data rr,
                                    ev_dest = dst_of d l s, ev_err = None\<rparr>],
           g := (g s)(d := G_Loop (l\<lparr>nbytes := nbytes l + of_nat (length (rr_data rr))\<rparr>))\<rparr>"
          using None ne False wa eN k
          by (simp add: process_def slice_to_butlast write_to_def set_g_def dst_of_def)
        then show ?thesis using written None by blast
      next
        case (Some e')
        have "process d l rr s =
         s\<lparr>wr_script := (wr_script s)(writer d := tl (wr_script s (writer d))),
           outputs := outputs s @ [\<lparr>ev_res = writer d, ev_data = take k (rr_data rr),
                                    ev_dest = dst_of d l s, ev_err = Some e'\<rparr>],
           logs := logs s @ [LogError (ra l) e'],
           g := (g s)(d := G_SendFinal l)\<rparr>"
          using None ne False wa Some
          by (simp add: process_def slice_to_butlast write_to_def set_g_def dst_of_def log_printf_def)
        then show ?thesis using write_failed None by blast
      qed
    qed
  qed
qed

lemma copy_step_cases:
  assumes "copy_step d s = Some s'"
  obtains
    (read) l rr s1 where "g s d = G_Loop l" "read_from (reader d) s = Some (rr, s1)"
      "s' = (if is_UDPConn (reader d) \<and> con_remote s1 = None \<and> ra l = None
             then set_g d (G_SendAddr (l\<lparr>ra := rr_addr rr\<rparr>) rr) s1
             else set_g d (G_Process l rr) s1)"
  | (send_addr) l rr where "g s d = G_SendAddr l rr" "receiving s"
      "s' = set_g d (G_Process l rr) (send d AddrReport \<lparr>remoteAddr = ra l, bytes = 0\<rparr> s)"
  | (process) l rr where "g s d = G_Process l rr" "s' = process d l rr s"
  | (send_final) l where "g s d = G_SendFinal l" "receiving s"
      "s' = close_both d (set_g d G_Done (send d FinalReport \<lparr>remoteAddr = None, bytes = nbytes l\<rparr> s))"
  using assms
  by (cases "g s d") (auto simp: copy_step_def split: option.splits if_splits)

lemma read_from_cases:
  assumes "read_from r s = Some (rr, s1)"
  obtains
    (closed) "r \<in> closed s" "rr = \<lparr>rr_data = [], rr_addr = None, rr_err = Some closed_error\<rparr>" "s1 = s"
  | (delivered) x xs where "r \<notin> closed s" "rd_script s r = x # xs"
      "rr = x\<lparr>rr_data := take BufferLimit (rr_data x)\<rparr>" "s1 = s\<lparr>rd_script := (rd_script s)(r := xs)\<rparr>"
  using assms by (auto simp: read_from_def split: if_splits list.splits)

lemma read_from_frame:
  assumes "read_from r s = Some (rr, s')"
  shows "con_remote s' = con_remote s" "orch s' = orch s" "g s' = g s" "sent s' = sent s"
    "orch_ra s' = orch_ra s" "outputs s' = outputs s" "closed s' = closed s"
    "list_all addr_ok (rd_script s Con) \<Longrightarrow> list_all addr_ok (rd_script s' Con)"
    "list_all addr_ok (rd_script s Con) \<Longrightarrow> r = Con \<Longrightarrow> addr_ok rr"
  using assms
  by (auto simp: read_from_def addr_ok_def split: if_splits list.splits)

lemma twist: "(f(Inbound := x, Outbound := y)) = (f(Outbound := y, Inbound := x))"
  by (simp add: fun_upd_twist)

lemma write_answer_g [simp]: "write_answer w d u (s\<lparr>g := x\<rparr>) = write_answer w d u s"
  by (simp add: write_answer_def)

lemma process_Outbound_frame:
  "process Outbound l rr (s\<lparr>g := (g s)(Inbound := x)\<rparr>) =
     (process Outbound l rr s)\<lparr>g := (g (process Outbound l rr s))(Inbound := x)\<rparr>"
  by (simp add: process_def set_g_def log_printf_def panic_def close_both_def write_to_def
        twist Let_def split_def split: option.splits)

lemma copy_step_Outbound_frame:
  "copy_step Outbound (s\<lparr>g := (g s)(Inbound := x)\<rparr>) =
     map_option (\<lambda>t. t\<lparr>g := (g t)(Inbound := x)\<rparr>) (copy_step Outbound s)"
proof (cases "g s Outbound")
  case (G_Loop l)
  then show ?thesis
    by (auto simp: copy_step_def read_from_def set_g_def twist split: list.splits)
next
  case (G_SendAddr l rr)
  then show ?thesis
    by (auto simp: copy_step_def set_g_def send_def receive_def receiving_def twist
        split: ostate.splits)
next
  case (G_Process l rr)
  then show ?thesis
    by (simp add: copy_step_def process_Outbound_frame)
next
  case (G_SendFinal l)
  then show ?thesis
    by (auto simp: copy_step_def set_g_def send_def receive_def receiving_def close_both_def twist
        split: ostate.splits)
qed (simp_all add: copy_step_def)

lemma step_Outbound_frame:
  "step (Go Outbound) (s\<lparr>g := (g s)(Inbound := x)\<rparr>) =
     map_option (\<lambda>t. t\<lparr>g := (g t)(Inbound := x)\<rparr>) (step (Go Outbound) s)"
  by (simp add: step_def copy_step_Outbound_frame)

section \<open>The control invariant\<close>

lemma ctl_inv_orch: "ctl_inv s \<Longrightarrow> orch_step s = Some s' \<Longrightarrow> ctl_inv s'"
  by (auto simp: ctl_inv_def orch_step_def split: ostate.splits if_splits)

lemma ctl_at_process_in:
  "ctl_at os cr (G_Process l rr) out \<Longrightarrow>
   x = G_SendFinal l \<or> x = G_Panicked \<or> (rr_err rr = None \<and> (\<exists>k. x = G_Loop (l\<lparr>nbytes := nbytes l + k\<rparr>))) \<Longrightarrow>
   ctl_at os cr x out"
  by (cases os) auto

lemma ctl_at_process_out:
  "ctl_at os cr i (G_Process l rr) \<Longrightarrow>
   x = G_SendFinal l \<or> x = G_Panicked \<or> (rr_err rr = None \<and> (\<exists>k. x = G_Loop (l\<lparr>nbytes := nbytes l + k\<rparr>))) \<Longrightarrow>
   ctl_at os cr i x"
  by (cases os) auto

lemma ctl_inv_process:
  assumes "ctl_inv s" "g s d = G_Process l rr"
  shows "ctl_inv (process d l rr s)"
proof (cases d)
  case Inbound
  with assms show ?thesis
    using process_next [of Inbound l rr s] ctl_at_process_in [of "orch s" "con_remote s" l rr "g s Outbound" "g (process Inbound l rr s) Inbound"]
    by (simp add: ctl_inv_def process_frame)
next
  case Outbound
  with assms show ?thesis
    using process_next [of Outbound l rr s] ctl_at_process_out [of "orch s" "con_remote s" "g s Inbound" l rr "g (process Outbound l rr s) Outbound"]
    by (simp add: ctl_inv_def process_frame)
qed

lemma ctl_inv_read:
  assumes "ctl_inv s" "g s d = G_Loop l" "read_from (reader d) s = Some (rr, s1)"
  shows "ctl_inv (if is_UDPConn (reader d) \<and> con_remote s1 = None \<and> ra l = None
               then set_g d (G_SendAddr (l\<lparr>ra := rr_addr rr\<rparr>) rr) s1
               else set_g d (G_Process l rr) s1)"
proof -
  note fr = read_from_frame [OF assms(3)]
  have wf: "list_all addr_ok (rd_script s1 Con)"
    using assms(1) fr(8) by (simp add: ctl_inv_def)
  have ct: "ctl_at (orch s) (con_remote s) (g s Inbound) (g s Outbound)"
    using assms(1) by (simp add: ctl_inv_def)
  show ?thesis
  proof (cases d)
    case Inbound
    have ok: "addr_ok rr" using fr(9) assms(1) Inbound by (simp add: ctl_inv_def)
    show ?thesis
      using ct wf ok Inbound assms(2)
      by (cases "orch s") (auto simp: ctl_inv_def set_g_def fr addr_ok_def)
  next
    case Outbound
    show ?thesis
      using ct wf Outbound assms(2)
      by (cases "orch s") (auto simp: ctl_inv_def set_g_def fr)
  qed
qed

lemma ctl_inv_send_addr:
  assumes "ctl_inv s" "g s d = G_SendAddr l rr" "receiving s"
  shows "ctl_inv (set_g d (G_Process l rr) (send d AddrReport p s))"
  using assms
  by (cases d; cases "orch s")
     (auto simp: ctl_inv_def set_g_def send_def receive_def receiving_def)

lemma ctl_inv_send_final:
  assumes "ctl_inv s" "g s d = G_SendFinal l" "receiving s"
  shows "ctl_inv (close_both d (set_g d G_Done (send d FinalReport p s)))"
  using assms
  by (cases d; cases "orch s")
     (auto simp: ctl_inv_def set_g_def send_def receive_def receiving_def close_both_def)

lemma ctl_inv_copy:
  assumes "ctl_inv s" "copy_step d s = Some s'"
  shows "ctl_inv s'"
proof (cases "g s d")
  case (G_Loop l)
  then obtain rr s1 where rd: "read_from (reader d) s = Some (rr, s1)"
    and s': "s' = (if is_UDPConn (reader d) \<and> con_remote s1 = None \<and> ra l = None
               then set_g d (G_SendAddr (l\<lparr>ra := rr_addr rr\<rparr>) rr) s1
               else set_g d (G_Process l rr) s1)"
    using assms(2) by (auto simp: copy_step_def split: option.splits if_splits)
  show ?thesis unfolding s' by (rule ctl_inv_read [OF assms(1) G_Loop rd])
next
  case (G_SendAddr l rr)
  then show ?thesis
    using assms by (auto simp: copy_step_def ctl_inv_send_addr split: if_splits)
next
  case (G_Process l rr)
  then show ?thesis
    using assms by (auto simp: copy_step_def ctl_inv_process)
next
  case (G_SendFinal l)
  then show ?thesis
    using assms by (auto simp: copy_step_def ctl_inv_send_final split: if_splits)
qed (use assms in \<open>simp_all add: copy_step_def\<close>)

lemma ctl_inv_step:
  assumes "ctl_inv s" "step a s = Some s'"
  shows "ctl_inv s'"
proof (cases a)
  case Orch
  then have "orch_step s = Some s'" using assms(2) by (simp add: step_def split: if_splits)
  then show ?thesis by (rule ctl_inv_orch [OF assms(1)])
next
  case (Go d)
  then have "copy_step d s = Some s'" using assms(2) by (simp add: step_def split: if_splits)
  then show ?thesis by (rule ctl_inv_copy [OF assms(1)])
qed

lemma ctl_inv_run: "ctl_inv s \<Longrightarrow> ctl_inv (run sch s)"
proof (induction sch arbitrary: s)
  case Nil
  then show ?case by simp
next
  case (Cons a sch)
  show ?case
  proof (cases "step a s")
    case None
    then show ?thesis using Cons by simp
  next
    case (Some s')
    then show ?thesis using Cons.IH [OF ctl_inv_step [OF Cons.prems Some]] by simp
  qed
qed

lemma ctl_inv_init: "list_all addr_ok (rd Con) \<Longrightarrow> ctl_inv (TransferPackets remote rd wr)"
  by (simp add: ctl_inv_def TransferPackets_def)

lemma run_inv:
  assumes "list_all addr_ok (rd Con)"
  shows "ctl_inv (run sch (TransferPackets remote rd wr))"
  using assms by (intro ctl_inv_run ctl_inv_init)

lemma ctl_at_returned:
  "ctl_at os cr i out \<Longrightarrow> (os = O_Returned) = (i = G_Done \<and> out = G_Done)"
  by (cases os) auto

lemma ctl_at_out_started:
  "ctl_at os cr i out \<Longrightarrow> out \<noteq> G_NotStarted \<Longrightarrow> os \<noteq> O_Init \<and> os \<noteq> O_WaitAddr"
  by (cases os) auto

section \<open>The address invariant of a listening endpoint\<close>

lemma sent_ok_final: "sent_ok a ms \<Longrightarrow> sent_ok a (ms @ [(d, FinalReport, p)])"
  by (cases ms) auto

lemma sent_ok_addr_reports: "sent_ok a ms \<Longrightarrow> addr_reports ms = [(Inbound, a)]"
  by (cases ms) (auto simp: addr_reports_def list_all_iff filter_empty_conv)

lemma sent_ok_hd: "sent_ok a ms \<Longrightarrow> \<exists>ms'. ms = (Inbound, AddrReport, \<lparr>remoteAddr = a, bytes = 0\<rparr>) # ms'"
  by (cases ms) auto

lemma addr_inv_orch:
  "ctl_inv s \<Longrightarrow> addr_inv xs s \<Longrightarrow> orch_step s = Some s' \<Longrightarrow> addr_inv xs s'"
  by (cases "orch s") (auto simp: ctl_inv_def addr_inv_def orch_step_def)

lemma addr_inv_copy:
  assumes c: "ctl_inv s" and a: "addr_inv xs s" and st: "copy_step d s = Some s'"
  shows "addr_inv xs s'"
  using st
proof (cases rule: copy_step_cases)
  case (read l rr s1)
  from read(2) show ?thesis
  proof (cases rule: read_from_cases)
    case closed
    then show ?thesis using c a read(1,3)
      by (cases d; cases "orch s") (auto simp: ctl_inv_def addr_inv_def set_g_def)
  next
    case (delivered x ys)
    then show ?thesis using c a read(1,3)
      by (cases d; cases "orch s") (auto simp: ctl_inv_def addr_inv_def set_g_def first_addr_def split: list.splits)
  qed
next
  case (send_addr l rr)
  then show ?thesis using c a
    by (cases d; cases "orch s")
       (auto simp: ctl_inv_def addr_inv_def set_g_def send_def receive_def receiving_def)
next
  case (process l rr)
  show ?thesis
  proof (cases rule: process_cases [of rr d l s])
    case (read_failed e)
    then show ?thesis using c a process
      by (cases d; cases "orch s") (auto simp: ctl_inv_def addr_inv_def)
  next
    case panicked
    then show ?thesis using c a process
      by (cases d; cases "orch s") (auto simp: ctl_inv_def addr_inv_def panic_def set_g_def close_both_def)
  next
    case marker
    then show ?thesis using c a process
      by (cases d; cases "orch s") (auto simp: ctl_inv_def addr_inv_def)
  next
    case (write_failed k e)
    then show ?thesis using c a process
      by (cases d; cases "orch s") (auto simp: ctl_inv_def addr_inv_def dst_of_def)
  next
    case written
    then show ?thesis using c a process
      by (cases d; cases "orch s") (auto simp: ctl_inv_def addr_inv_def dst_of_def)
  qed
next
  case (send_final l)
  then show ?thesis using c a
    by (cases d; cases "orch s")
       (auto simp: ctl_inv_def addr_inv_def set_g_def send_def receive_def receiving_def
          sent_ok_final close_both_def)
qed

lemma listen_inv_step:
  assumes "listen_inv xs s" "step a s = Some s'"
  shows "listen_inv xs s'"
proof (cases a)
  case Orch
  then have "orch_step s = Some s'" using assms(2) by (simp add: step_def split: if_splits)
  then show ?thesis
    using assms(1) ctl_inv_orch addr_inv_orch unfolding listen_inv_def by blast
next
  case (Go d)
  then have "copy_step d s = Some s'" using assms(2) by (simp add: step_def split: if_splits)
  then show ?thesis
    using assms(1) ctl_inv_copy addr_inv_copy unfolding listen_inv_def by blast
qed

lemma listen_inv_run: "listen_inv xs s \<Longrightarrow> listen_inv xs (run sch s)"
proof (induction sch arbitrary: s)
  case Nil
  then show ?case by simp
next
  case (Cons a sch)
  show ?case
  proof (cases "step a s")
    case None
    then show ?thesis using Cons by simp
  next
    case (Some s')
    then show ?thesis using Cons.IH [OF listen_inv_step [OF Cons.prems Some]] by simp
  qed
qed

lemma listen_inv_init:
  "list_all addr_ok (rd Con) \<Longrightarrow> listen_inv (rd Con) (TransferPackets None rd wr)"
  by (simp add: listen_inv_def ctl_inv_def addr_inv_def TransferPackets_def)

lemma run_listen_inv:
  assumes "list_all addr_ok (rd Con)"
  shows "listen_inv (rd Con) (run sch (TransferPackets None rd wr))"
  using assms by (intro listen_inv_run listen_inv_init)

section \<open>The byte-count invariant\<close>

lemma ok_bytes_snoc:
  "ok_bytes w (evs @ [e]) =
     ok_bytes w evs + (if ev_res e = w \<and> ev_err e = None then length (ev_data e) else 0)"
  by (simp add: ok_bytes_def)

lemma final_counts_snoc:
  "final_counts d (ms @ [(d', k, p)]) =
     final_counts d ms @ (if d' = d \<and> k = FinalReport then [bytes p] else [])"
  by (simp add: final_counts_def)

lemma count_inv_orch: "count_inv s \<Longrightarrow> orch_step s = Some s' \<Longrightarrow> count_inv s'"
  by (cases "orch s") (auto simp: count_inv_def orch_step_def split: if_splits)

lemma count_inv_copy:
  assumes a: "count_inv s" and st: "copy_step d s = Some s'"
  shows "count_inv s'"
  using st
proof (cases rule: copy_step_cases)
  case (read l rr s1)
  from read(2) show ?thesis
  proof (cases rule: read_from_cases)
    case closed
    then show ?thesis using a read(1,3)
      by (cases d) (auto simp: count_inv_def set_g_def)
  next
    case (delivered x ys)
    then show ?thesis using a read(1,3)
      by (cases d) (auto simp: count_inv_def set_g_def)
  qed
next
  case (send_addr l rr)
  then show ?thesis using a
    by (cases d; cases "orch s")
       (auto simp: count_inv_def set_g_def send_def receive_def receiving_def final_counts_snoc)
next
  case (process l rr)
  show ?thesis
  proof (cases rule: process_cases [of rr d l s])
    case (read_failed e)
    then show ?thesis using a process
      by (cases d) (auto simp: count_inv_def)
  next
    case panicked
    then show ?thesis using a process
      by (cases d) (auto simp: count_inv_def panic_def set_g_def close_both_def)
  next
    case marker
    then show ?thesis using a process
      by (cases d) (auto simp: count_inv_def)
  next
    case (write_failed k e)
    then show ?thesis using a process
      by (cases d) (auto simp: count_inv_def ok_bytes_snoc)
  next
    case written
    then show ?thesis using a process
      by (cases d) (auto simp: count_inv_def ok_bytes_snoc)
  qed
next
  case (send_final l)
  then show ?thesis using a
    by (cases d; cases "orch s")
       (auto simp: count_inv_def set_g_def send_def receive_def receiving_def
          final_counts_snoc close_both_def)
qed

lemma count_inv_step:
  assumes "count_inv s" "step a s = Some s'"
  shows "count_inv s'"
proof (cases a)
  case Orch
  then have "orch_step s = Some s'" using assms(2) by (simp add: step_def split: if_splits)
  then show ?thesis by (rule count_inv_orch [OF assms(1)])
next
  case (Go d)
  then have "copy_step d s = Some s'" using assms(2) by (simp add: step_def split: if_splits)
  then show ?thesis by (rule count_inv_copy [OF assms(1)])
qed

lemma count_inv_run: "count_inv s \<Longrightarrow> count_inv (run sch s)"
proof (induction sch arbitrary: s)
  case Nil
  then show ?case by simp
next
  case (Cons a sch)
  show ?case
  proof (cases "step a s")
    case None
    then show ?thesis using Cons by simp
  next
    case (Some s')
    then show ?thesis using Cons.IH [OF count_inv_step [OF Cons.prems Some]] by simp
  qed
qed

lemma count_inv_init: "count_inv (TransferPackets remote rd wr)"
  by (simp add: count_inv_def TransferPackets_def ok_bytes_def final_counts_def)

lemma count_ok_done: "count_ok tot finals G_Done \<Longrightarrow> finals = [tot]"
  by simp

lemma count_ok_done_iff: "count_ok tot finals x \<Longrightarrow> (x = G_Done) = (finals \<noteq> [])"
  by (cases x) auto

lemma count_ok_done_unat:
  "count_ok (of_nat n) finals G_Done \<Longrightarrow> map unat finals = [n mod 2 ^ 64]"
  by (simp add: unat_of_nat)

lemma final_counts_done_iff:
  assumes "count_inv s"
  shows "(g s d = G_Done) = (final_counts d (sent s) \<noteq> [])"
  using assms by (cases d) (auto simp: count_inv_def dest: count_ok_done_iff)

section \<open>The invariant of a stream session\<close>

lemma s_inv_orch: "s_inv s \<Longrightarrow> s_orch_step s = Some s' \<Longrightarrow> s_inv s'"
  by (cases "s_orch s") (auto simp: s_inv_def s_orch_step_def)

lemma s_inv_copy: "s_inv s \<Longrightarrow> s_copy_step d s = Some s' \<Longrightarrow> s_inv s'"
  by (cases d; cases "s_g s d"; cases "s_orch s")
     (auto simp: s_inv_def s_copy_step_def s_receiving_def s_receive_def s_reports_def
        split: option.splits if_splits)

lemma s_inv_step:
  assumes "s_inv s" "s_step a s = Some s'"
  shows "s_inv s'"
proof (cases a)
  case Orch
  then have "s_orch_step s = Some s'" using assms(2) by (simp add: s_step_def)
  then show ?thesis by (rule s_inv_orch [OF assms(1)])
next
  case (Go d)
  then have "s_copy_step d s = Some s'" using assms(2) by (simp add: s_step_def)
  then show ?thesis by (rule s_inv_copy [OF assms(1)])
qed

lemma s_inv_run: "s_inv s \<Longrightarrow> s_inv (s_run sch s)"
proof (induction sch arbitrary: s)
  case Nil
  then show ?case by simp
next
  case (Cons a sch)
  show ?case
  proof (cases "s_step a s")
    case None
    then show ?thesis using Cons by simp
  next
    case (Some s')
    then show ?thesis using Cons.IH [OF s_inv_step [OF Cons.prems Some]] by simp
  qed
qed

lemma s_inv_init: "s_inv (TransferStreams remote cp)"
  by (simp add: s_inv_def TransferStreams_def s_reports_def)

lemma io_Copy_step: "s_step a s = Some s' \<Longrightarrow> io_Copy s' = io_Copy s"
  by (cases a)
     (auto simp: s_step_def s_orch_step_def s_copy_step_def s_receive_def
        split: sostate.splits sgstate.splits option.splits if_splits)

lemma io_Copy_run: "io_Copy (s_run sch s) = io_Copy s"
proof (induction sch arbitrary: s)
  case Nil
  then show ?case by simp
next
  case (Cons a sch)
  show ?case
  proof (cases "s_step a s")
    case None
    then show ?thesis using Cons by simp
  next
    case (Some s')
    then show ?thesis using Cons [of s'] io_Copy_step [OF Some] by simp
  qed
qed

lemma s_ctl_at_returned:
  "s_ctl_at os i out \<Longrightarrow> (os = SO_Returned) = (i = S_Done \<and> out = S_Done)"
  by (cases os) auto

lemma s_count_ok_done_iff: "s_count_ok c ps x \<Longrightarrow> (x = S_Done) = (ps \<noteq> [])"
  by (cases x) auto

lemma s_count_ok_done_uint:
  "s_count_ok c ps S_Done \<Longrightarrow>
   \<exists>n e. c = Some (n, e) \<and> map (\<lambda>p. uint (bytes p)) ps = [n mod 2 ^ 64]"
  by (auto simp: uint_word_of_int_eq take_bit_eq_mod)

lemma s_reports_done_iff:
  assumes "s_inv s"
  shows "(s_g s d = S_Done) = (s_reports d (s_sent s) \<noteq> [])"
  using assms by (cases d) (auto simp: s_inv_def dest: s_count_ok_done_iff)

section \<open>The example sessions, run\<close>

lemma demo_run:
  "orch (run demo_schedule demo_session) = O_Returned"
  "g (run demo_schedule demo_session) Inbound = G_Done"
  "g (run demo_schedule demo_session) Outbound = G_Done"
  "outputs (run demo_schedule demo_session) =
     [\<lparr>ev_res = Stdout, ev_data = ''hi'', ev_dest = PreBound, ev_err = None\<rparr>,
      \<lparr>ev_res = Stdout, ev_data = ''from elsewhere'', ev_dest = PreBound, ev_err = None\<rparr>,
      \<lparr>ev_res = Con, ev_data = ''yo'', ev_dest = ToAddr (Some peer), ev_err = None\<rparr>,
      \<lparr>ev_res = Con, ev_data = [], ev_dest = ToAddr (Some peer), ev_err = Some closed_error\<rparr>]"
  "sent (run demo_schedule demo_session) =
     [(Inbound, AddrReport, \<lparr>remoteAddr = Some peer, bytes = 0\<rparr>),
      (Inbound, FinalReport, \<lparr>remoteAddr = None, bytes = 16\<rparr>),
      (Outbound, FinalReport, \<lparr>remoteAddr = None, bytes = 2\<rparr>)]"
  "orch_ra (run demo_schedule demo_session) = Some peer"
  by (simp_all add: demo_schedule_def demo_session_def demo_rd_def other_peer_def example_defs machine_defs)

lemma demo_wf: "list_all addr_ok (demo_rd Con)"
  by (simp add: demo_rd_def addr_ok_def unit_from_def)

lemma demo_stream_run:
  "s_g (s_run demo_stream_schedule demo_stream) Inbound = S_Done"
  "s_g (s_run demo_stream_schedule demo_stream) Outbound = S_Done"
  "s_sent (s_run demo_stream_schedule demo_stream) =
     [(Inbound, \<lparr>remoteAddr = None, bytes = 5\<rparr>), (Outbound, \<lparr>remoteAddr = None, bytes = 5\<rparr>)]"
  by (simp_all add: demo_stream_schedule_def demo_stream_def stream_defs)

lemma demo_prefix:
  "g (run (take 12 demo_schedule) demo_session) Outbound = G_Loop \<lparr>ra = Some peer, nbytes = 2\<rparr>"
  "g (run (take 12 demo_schedule) demo_session) Inbound = G_Done"
  by (simp_all add: demo_schedule_def demo_session_def demo_rd_def other_peer_def example_defs machine_defs)

section \<open>The claims\<close>

text \<open>
  C1. A unit has been read without error (the goroutine stands between the read and
  line 81) and its content without the final byte is the disconnect sequence: the next
  step of that goroutine leaves the loop (it stands at the send of its final report, with
  its byte count unchanged), and nothing else changes: no write event, no log entry, no
  crash.
\<close>

theorem marker_unit_ends_loop_silently:
  assumes "g s d = G_Process l rr" and "\<not> crashed s"
    and "rr_err rr = None" and "butlast (rr_data rr) = UDPDisconnectSequence"
  shows "\<exists>s'. step (Go d) s = Some s' \<and> s' = s\<lparr>g := (g s)(d := G_SendFinal l)\<rparr> \<and>
           g s' d = G_SendFinal l \<and> outputs s' = outputs s \<and> logs s' = logs s \<and> \<not> crashed s'"
  using assms by (simp add: step_def copy_step_def process_marker)

theorem marker_unit_ends_loop_silently_witness:
  "(let s = run [Orch, Go Inbound, Go Inbound] (listen_session [unit_from peer (''~.'' @ [CHR 0x0A])]);
        l = \<lparr>ra = Some peer, nbytes = 0\<rparr>;
        rr = unit_from peer (''~.'' @ [CHR 0x0A])
    in g s Inbound = G_Process l rr \<and> \<not> crashed s \<and> rr_err rr = None \<and>
       butlast (rr_data rr) = UDPDisconnectSequence \<and>
       (\<exists>s'. step (Go Inbound) s = Some s' \<and> s' = s\<lparr>g := (g s)(Inbound := G_SendFinal l)\<rparr> \<and>
           g s' Inbound = G_SendFinal l \<and> outputs s' = outputs s \<and> logs s' = logs s \<and>
           \<not> crashed s'))"
proof -
  define s where "s = run [Orch, Go Inbound, Go Inbound] (listen_session [unit_from peer (''~.'' @ [CHR 0x0A])])"
  define l where "l = \<lparr>ra = Some peer, nbytes = 0\<rparr>"
  define rr where "rr = unit_from peer (''~.'' @ [CHR 0x0A])"
  have 1: "g s Inbound = G_Process l rr"
    by (simp add: s_def l_def rr_def example_defs machine_defs)
  have 2: "\<not> crashed s"
    by (simp add: s_def example_defs machine_defs)
  have 3: "rr_err rr = None" and 4: "butlast (rr_data rr) = UDPDisconnectSequence"
    by (simp_all add: rr_def unit_from_def UDPDisconnectSequence_def)
  show ?thesis
    using 1 2 3 4 marker_unit_ends_loop_silently [OF 1 2 3 4]
    unfolding s_def l_def rr_def Let_def by blast
qed

text \<open>
  C2. A listening endpoint receives an empty datagram (\<open>n = 0\<close>, no error): the slice
  \<^verbatim>\<open>buf[0:n-1]\<close> is out of range, the goroutine panics and the process ends; the body of
  \<^verbatim>\<open>TransferPackets\<close> never returns.
\<close>

theorem empty_unit_panics:
  "(let s = run [Orch, Go Inbound, Go Inbound, Go Inbound] (listen_session [unit_from peer []])
    in crashed s \<and> g s Inbound = G_Panicked \<and> orch s = O_LaunchOut \<and>
       (\<forall>a. step a s = None))"
  by (simp add: example_defs machine_defs)

text \<open>
  C3. A listening endpoint whose first read of \<^verbatim>\<open>con\<close> returns \<open>first\<close>. In every state
  the session can reach, under any schedule and whatever the later reads return: every
  unit the outbound goroutine has sent or tried to send on \<^verbatim>\<open>con\<close> went to the sender
  address of \<open>first\<close>; once the address report is received the \<open>ra\<close> of
  \<^verbatim>\<open>TransferPackets\<close> is that address, and so is the \<open>ra\<close> of the outbound goroutine;
  and at most one address report is ever sent, by the inbound goroutine, carrying that
  address. The reads of \<^verbatim>\<open>con\<close> follow the contract of \<^verbatim>\<open>ReadFrom\<close> (\<open>addr_ok\<close>); the
  sender addresses of the later reads are arbitrary.
\<close>

theorem learned_address_is_fixed:
  assumes "list_all addr_ok (rd Con)" and "rd Con = first # rest"
  shows "(\<forall>e\<in>set (outputs (run sch (TransferPackets None rd wr))).
            ev_res e = Con \<longrightarrow> ev_dest e = ToAddr (rr_addr first)) \<and>
         (orch (run sch (TransferPackets None rd wr)) \<noteq> O_Init \<and>
          orch (run sch (TransferPackets None rd wr)) \<noteq> O_WaitAddr \<longrightarrow>
            orch_ra (run sch (TransferPackets None rd wr)) = rr_addr first) \<and>
         out_ra_ok (rr_addr first) (g (run sch (TransferPackets None rd wr)) Outbound) \<and>
         (addr_reports (sent (run sch (TransferPackets None rd wr))) = [] \<or>
          addr_reports (sent (run sch (TransferPackets None rd wr))) = [(Inbound, rr_addr first)])"
proof -
  let ?s = "run sch (TransferPackets None rd wr)"
  have fa: "first_addr (rd Con) = rr_addr first"
    using assms(2) by (simp add: first_addr_def)
  have "listen_inv (rd Con) ?s" using assms(1) by (rule run_listen_inv)
  then have a: "addr_inv (rd Con) ?s" by (simp add: listen_inv_def)
  show ?thesis
  proof (cases "orch ?s = O_Init \<or> orch ?s = O_WaitAddr")
    case True
    then show ?thesis using a fa by (auto simp: addr_inv_def addr_reports_def)
  next
    case False
    then have "sent_ok (rr_addr first) (sent ?s)" using a fa by (auto simp: addr_inv_def)
    then have "addr_reports (sent ?s) = [(Inbound, rr_addr first)]"
      by (rule sent_ok_addr_reports)
    then show ?thesis using a fa False by (auto simp: addr_inv_def)
  qed
qed

theorem learned_address_is_fixed_witness:
  "list_all addr_ok (demo_rd Con) \<and>
   demo_rd Con = unit_from peer ''hi'' #
      [unit_from other_peer ''from elsewhere'', unit_from other_peer (''~.'' @ [CHR 0x0A])] \<and>
   map ev_dest (filter (\<lambda>e. ev_res e = Con) (outputs (run demo_schedule demo_session))) =
     [ToAddr (Some peer), ToAddr (Some peer)] \<and>
   orch (run demo_schedule demo_session) = O_Returned \<and>
   orch_ra (run demo_schedule demo_session) = Some peer \<and>
   addr_reports (sent (run demo_schedule demo_session)) = [(Inbound, Some peer)]"
proof -
  have rd: "demo_rd Con = unit_from peer ''hi'' #
      [unit_from other_peer ''from elsewhere'', unit_from other_peer (''~.'' @ [CHR 0x0A])]"
    by (simp add: demo_rd_def)
  have ex: "map ev_dest (filter (\<lambda>e. ev_res e = Con) (outputs (run demo_schedule demo_session))) =
     [ToAddr (Some peer), ToAddr (Some peer)]"
    by (simp add: demo_run(4))
  have ne: "addr_reports (sent (run demo_schedule demo_session)) \<noteq> []"
    by (simp add: demo_run(5) addr_reports_def)
  show ?thesis
    using demo_wf rd ex ne demo_run(1)
      learned_address_is_fixed [where rd = demo_rd and sch = demo_schedule and
        wr = "\<lambda>_. []", OF demo_wf rd]
    unfolding demo_session_def [symmetric]
    by (simp add: unit_from_def)
qed

text \<open>
  C4. The buffer of line 62 has \<open>BufferLimit\<close> bytes, which is 131071 and not 65535: a
  read of standard input that finds 70000 bytes returns them as one unit.
\<close>

theorem BufferLimit_is_131071:
  "BufferLimit = 131071 \<and> BufferLimit \<noteq> 65535 \<and>
   map_option (\<lambda>r. length (rr_data (fst r)))
     (read_from Stdin
        (TransferPackets (Some peer)
           ((\<lambda>_. [])(Stdin := [\<lparr>rr_data = replicate 70000 (CHR ''a''), rr_addr = None, rr_err = None\<rparr>]))
           (\<lambda>_. []))) = Some 70000"
  by (simp add: BufferLimit_value read_from_def TransferPackets_def)

text \<open>
  C5. A listening endpoint. In every state the session can reach, under any schedule:
  if the outbound goroutine has been launched, the first value that went through the
  channel is the address report of the inbound goroutine and the \<open>ra\<close> of
  \<^verbatim>\<open>TransferPackets\<close> and of the outbound goroutine is the address it carried; and a
  send on \<^verbatim>\<open>con\<close> has only been attempted if the outbound goroutine has been launched.
  The reads of \<^verbatim>\<open>con\<close> follow the contract of \<^verbatim>\<open>ReadFrom\<close> (\<open>addr_ok\<close>).
\<close>

theorem outbound_starts_after_address_report:
  assumes "list_all addr_ok (rd Con)"
  shows "(g (run sch (TransferPackets None rd wr)) Outbound \<noteq> G_NotStarted \<longrightarrow>
            (\<exists>a ms. sent (run sch (TransferPackets None rd wr)) =
                       (Inbound, AddrReport, \<lparr>remoteAddr = a, bytes = 0\<rparr>) # ms \<and>
                    orch_ra (run sch (TransferPackets None rd wr)) = a \<and>
                    out_ra_ok a (g (run sch (TransferPackets None rd wr)) Outbound))) \<and>
         (\<forall>e\<in>set (outputs (run sch (TransferPackets None rd wr))).
            ev_res e = Con \<longrightarrow> g (run sch (TransferPackets None rd wr)) Outbound \<noteq> G_NotStarted)"
proof -
  let ?s = "run sch (TransferPackets None rd wr)"
  have li: "listen_inv (rd Con) ?s" using assms(1) by (rule run_listen_inv)
  then have a: "addr_inv (rd Con) ?s" and c: "ctl_inv ?s" by (simp_all add: listen_inv_def)
  have 2: "\<forall>e\<in>set (outputs ?s). ev_res e = Con \<longrightarrow> g ?s Outbound \<noteq> G_NotStarted"
    using a by (auto simp: addr_inv_def)
  have 1: "\<exists>a ms. sent ?s = (Inbound, AddrReport, \<lparr>remoteAddr = a, bytes = 0\<rparr>) # ms \<and>
             orch_ra ?s = a \<and> out_ra_ok a (g ?s Outbound)"
    if st: "g ?s Outbound \<noteq> G_NotStarted"
  proof -
    have "orch ?s \<noteq> O_Init \<and> orch ?s \<noteq> O_WaitAddr"
      using c st ctl_at_out_started unfolding ctl_inv_def by blast
    then have "sent_ok (first_addr (rd Con)) (sent ?s)" "orch_ra ?s = first_addr (rd Con)"
      "out_ra_ok (first_addr (rd Con)) (g ?s Outbound)"
      using a by (auto simp: addr_inv_def)
    then show ?thesis using sent_ok_hd by blast
  qed
  show ?thesis using 1 2 by blast
qed

theorem outbound_starts_after_address_report_witness:
  "list_all addr_ok (demo_rd Con) \<and>
   g (run (take 5 demo_schedule) demo_session) Outbound \<noteq> G_NotStarted \<and>
   (\<exists>a ms. sent (run (take 5 demo_schedule) demo_session) =
              (Inbound, AddrReport, \<lparr>remoteAddr = a, bytes = 0\<rparr>) # ms \<and>
           orch_ra (run (take 5 demo_schedule) demo_session) = a \<and>
           out_ra_ok a (g (run (take 5 demo_schedule) demo_session) Outbound)) \<and>
   g (run (take 3 demo_schedule) demo_session) Outbound = G_NotStarted \<and>
   filter (\<lambda>e. ev_res e = Con) (outputs (run (take 3 demo_schedule) demo_session)) = []"
proof -
  have 1: "g (run (take 5 demo_schedule) demo_session) Outbound \<noteq> G_NotStarted"
    by (simp add: demo_schedule_def demo_session_def demo_rd_def other_peer_def example_defs machine_defs)
  have 2: "g (run (take 3 demo_schedule) demo_session) Outbound = G_NotStarted"
    by (simp add: demo_schedule_def demo_session_def demo_rd_def other_peer_def example_defs machine_defs)
  have 3: "filter (\<lambda>e. ev_res e = Con) (outputs (run (take 3 demo_schedule) demo_session)) = []"
    using demo_wf 2
      outbound_starts_after_address_report [where rd = demo_rd and
        sch = "take 3 demo_schedule" and wr = "\<lambda>_. []"]
    unfolding demo_session_def [symmetric] filter_empty_conv
    by blast
  show ?thesis
    using demo_wf 1 2 3
      outbound_starts_after_address_report [where rd = demo_rd and
        sch = "take 5 demo_schedule" and wr = "\<lambda>_. []"]
    unfolding demo_session_def [symmetric]
    by blast
qed

text \<open>
  C6. In every state a session can reach, under any schedule, the body of
  \<^verbatim>\<open>TransferPackets\<close> has returned exactly when both \<^verbatim>\<open>copy\<close> goroutines have returned, and
  a goroutine has returned exactly when its final report has been received; the same
  holds for \<^verbatim>\<open>TransferStreams\<close>. For the datagram engine the reads of \<^verbatim>\<open>con\<close> are taken to
  follow the contract of \<^verbatim>\<open>ReadFrom\<close> (no error means a sender address).
\<close>

theorem session_returns_iff_both_done:
  assumes "list_all addr_ok (rd Con)"
  shows "(orch (run sch (TransferPackets remote rd wr)) = O_Returned \<longleftrightarrow>
            g (run sch (TransferPackets remote rd wr)) Inbound = G_Done \<and>
            g (run sch (TransferPackets remote rd wr)) Outbound = G_Done) \<and>
         (\<forall>d. g (run sch (TransferPackets remote rd wr)) d = G_Done \<longleftrightarrow>
            final_counts d (sent (run sch (TransferPackets remote rd wr))) \<noteq> []) \<and>
         (s_orch (s_run sch' (TransferStreams remote' cp)) = SO_Returned \<longleftrightarrow>
            s_g (s_run sch' (TransferStreams remote' cp)) Inbound = S_Done \<and>
            s_g (s_run sch' (TransferStreams remote' cp)) Outbound = S_Done) \<and>
         (\<forall>d. s_g (s_run sch' (TransferStreams remote' cp)) d = S_Done \<longleftrightarrow>
            s_reports d (s_sent (s_run sch' (TransferStreams remote' cp))) \<noteq> [])"
proof -
  let ?s = "run sch (TransferPackets remote rd wr)"
  let ?t = "s_run sch' (TransferStreams remote' cp)"
  have "ctl_inv ?s" using assms by (rule run_inv)
  then have 1: "orch ?s = O_Returned \<longleftrightarrow> g ?s Inbound = G_Done \<and> g ?s Outbound = G_Done"
    unfolding ctl_inv_def using ctl_at_returned by blast
  have "count_inv ?s" by (rule count_inv_run [OF count_inv_init])
  then have 2: "\<forall>d. g ?s d = G_Done \<longleftrightarrow> final_counts d (sent ?s) \<noteq> []"
    using final_counts_done_iff by blast
  have t: "s_inv ?t" by (rule s_inv_run [OF s_inv_init])
  then have 3: "s_orch ?t = SO_Returned \<longleftrightarrow> s_g ?t Inbound = S_Done \<and> s_g ?t Outbound = S_Done"
    unfolding s_inv_def using s_ctl_at_returned by blast
  have 4: "\<forall>d. s_g ?t d = S_Done \<longleftrightarrow> s_reports d (s_sent ?t) \<noteq> []"
    using t s_reports_done_iff by blast
  show ?thesis using 1 2 3 4 by blast
qed

theorem session_returns_iff_both_done_witness:
  "list_all addr_ok (demo_rd Con) \<and>
   orch (run demo_schedule demo_session) = O_Returned \<and>
   g (run demo_schedule demo_session) Inbound = G_Done \<and>
   g (run demo_schedule demo_session) Outbound = G_Done \<and>
   final_counts Inbound (sent (run demo_schedule demo_session)) \<noteq> [] \<and>
   g (run (take 12 demo_schedule) demo_session) Outbound \<noteq> G_Done \<and>
   orch (run (take 12 demo_schedule) demo_session) \<noteq> O_Returned \<and>
   s_g (s_run demo_stream_schedule demo_stream) Inbound = S_Done \<and>
   s_g (s_run demo_stream_schedule demo_stream) Outbound = S_Done \<and>
   s_orch (s_run demo_stream_schedule demo_stream) = SO_Returned"
  using demo_wf demo_run(2,3) demo_stream_run(1,2) demo_prefix(1)
    session_returns_iff_both_done [where rd = demo_rd and sch = demo_schedule and
      remote = None and wr = "\<lambda>_. []" and sch' = demo_stream_schedule and
      remote' = "Some peer" and cp = "\<lambda>_. Some (5, None)"]
    session_returns_iff_both_done [where rd = demo_rd and sch = "take 12 demo_schedule" and
      remote = None and wr = "\<lambda>_. []" and sch' = demo_stream_schedule and
      remote' = "Some peer" and cp = "\<lambda>_. Some (5, None)"]
  unfolding demo_session_def [symmetric] demo_stream_def [symmetric]
  by simp

text \<open>
  C7, as the code has it. In every state a session can reach, under any schedule: when
  a \<^verbatim>\<open>copy\<close> goroutine of \<^verbatim>\<open>TransferPackets\<close> has returned, it has sent one final report, and
  its byte count is, modulo \<open>2^64\<close>, the number of bytes of the units whose write to its
  destination returned no error. When a \<^verbatim>\<open>copy\<close> goroutine of \<^verbatim>\<open>TransferStreams\<close> has
  returned, it has sent one report, and its byte count is the number that \<^verbatim>\<open>io.Copy\<close>
  returned, converted to \<^verbatim>\<open>uint64\<close>.
\<close>

theorem final_report_counts_error_free_writes:
  "(\<forall>d. g (run sch (TransferPackets remote rd wr)) d = G_Done \<longrightarrow>
       map unat (final_counts d (sent (run sch (TransferPackets remote rd wr)))) =
         [ok_bytes (writer d) (outputs (run sch (TransferPackets remote rd wr))) mod 2 ^ 64]) \<and>
   (\<forall>d. s_g (s_run sch' (TransferStreams remote' cp)) d = S_Done \<longrightarrow>
       (\<exists>n e. cp d = Some (n, e) \<and>
          map (\<lambda>p. uint (bytes p)) (s_reports d (s_sent (s_run sch' (TransferStreams remote' cp)))) =
            [n mod 2 ^ 64]))"
proof -
  let ?s = "run sch (TransferPackets remote rd wr)"
  let ?t = "s_run sch' (TransferStreams remote' cp)"
  have c: "count_inv ?s" by (rule count_inv_run [OF count_inv_init])
  have 1: "map unat (final_counts d (sent ?s)) = [ok_bytes (writer d) (outputs ?s) mod 2 ^ 64]"
    if "g ?s d = G_Done" for d
  proof -
    have "count_ok (of_nat (ok_bytes (writer d) (outputs ?s))) (final_counts d (sent ?s)) (g ?s d)"
      using c by (cases d) (simp_all add: count_inv_def)
    then show ?thesis unfolding that by (rule count_ok_done_unat)
  qed
  have t: "s_inv ?t" by (rule s_inv_run [OF s_inv_init])
  have cp: "io_Copy ?t = cp" by (simp add: io_Copy_run TransferStreams_def)
  have 2: "\<exists>n e. cp d = Some (n, e) \<and>
             map (\<lambda>p. uint (bytes p)) (s_reports d (s_sent ?t)) = [n mod 2 ^ 64]"
    if "s_g ?t d = S_Done" for d
  proof -
    have "s_count_ok (io_Copy ?t d) (s_reports d (s_sent ?t)) (s_g ?t d)"
      using t by (cases d) (simp_all add: s_inv_def)
    then show ?thesis unfolding that cp by (rule s_count_ok_done_uint)
  qed
  show ?thesis using 1 2 by blast
qed

theorem final_report_counts_error_free_writes_witness:
  "g (run demo_schedule demo_session) Inbound = G_Done \<and>
   ok_bytes (writer Inbound) (outputs (run demo_schedule demo_session)) = 16 \<and>
   map unat (final_counts Inbound (sent (run demo_schedule demo_session))) = [16] \<and>
   s_g (s_run demo_stream_schedule demo_stream) Outbound = S_Done \<and>
   map (\<lambda>p. uint (bytes p)) (s_reports Outbound (s_sent (s_run demo_stream_schedule demo_stream))) = [5]"
proof -
  have ok: "ok_bytes (writer Inbound) (outputs (run demo_schedule demo_session)) = 16"
    by (simp add: demo_run(4) ok_bytes_def)
  show ?thesis
    using demo_run(2) demo_stream_run(2) ok
      final_report_counts_error_free_writes [where sch = demo_schedule and remote = None and
        rd = demo_rd and wr = "\<lambda>_. []" and sch' = demo_stream_schedule and
        remote' = "Some peer" and cp = "\<lambda>_. Some (5, None)"]
    unfolding demo_session_def [symmetric] demo_stream_def [symmetric]
    by auto
qed

text \<open>
  C7, as stated, fails: standard output accepts one byte of a two-byte unit and then
  reports an error. The inbound goroutine logs the error and leaves the loop before line
  102, so its final report counts 0 bytes although one byte was written.
\<close>

theorem short_write_is_not_counted:
  "(let s = run [Orch, Orch, Go Inbound, Go Inbound, Go Inbound] short_write_session
    in g s Inbound = G_Done \<and>
       outputs s = [\<lparr>ev_res = Stdout, ev_data = ''a'', ev_dest = PreBound,
                      ev_err = Some (OtherError ''no space left on device'')\<rparr>] \<and>
       accepted_bytes Stdout (outputs s) = 1 \<and>
       final_counts Inbound (sent s) = [0])"
  by (simp add: short_write_session_def example_defs machine_defs accepted_bytes_def
        final_counts_def)

text \<open>
  C8. A read has failed (the goroutine stands between the read and line 81 with an
  error). If the error is \<^verbatim>\<open>io.EOF\<close> nothing is logged; otherwise one error line is
  logged with the goroutine's current \<open>ra\<close>, which may still be nil. In both cases the
  goroutine leaves its loop, and nothing else changes: the other goroutine and the body
  of \<^verbatim>\<open>TransferPackets\<close> stand where they stood, and the process does not end.
  \<^verbatim>\<open>TransferPackets\<close> has no result, so no error value reaches its caller.
\<close>

theorem read_failure_ends_direction_only:
  assumes "g s d = G_Process l rr" and "\<not> crashed s" and "rr_err rr = Some e"
  shows "\<exists>s'. step (Go d) s = Some s' \<and>
           s' = s\<lparr>logs := logs s @ (if e = EOF then [] else [LogError (ra l) e]),
                  g := (g s)(d := G_SendFinal l)\<rparr> \<and>
           (\<forall>d'. d' \<noteq> d \<longrightarrow> g s' d' = g s d') \<and> orch s' = orch s \<and> \<not> crashed s' \<and>
           outputs s' = outputs s"
  using assms by (simp add: step_def copy_step_def process_error)

theorem read_failure_ends_direction_only_witness:
  "(let s = run [Orch, Go Inbound, Go Inbound, Orch]
              (listen_session [failed_read (OtherError ''connection refused'')]);
        l = \<lparr>ra = None, nbytes = 0\<rparr>;
        rr = failed_read (OtherError ''connection refused'');
        e = OtherError ''connection refused''
    in g s Inbound = G_Process l rr \<and> \<not> crashed s \<and> rr_err rr = Some e \<and>
       (\<exists>s'. step (Go Inbound) s = Some s' \<and>
           s' = s\<lparr>logs := logs s @ [LogError None e], g := (g s)(Inbound := G_SendFinal l)\<rparr> \<and>
           g s' Outbound = g s Outbound \<and> orch s' = orch s \<and> \<not> crashed s' \<and>
           outputs s' = outputs s)) \<and>
   (let s = run [Orch, Orch, Go Outbound]
              (TransferPackets (Some peer) ((\<lambda>_. [])(Stdin := [failed_read EOF])) (\<lambda>_. []));
        l = \<lparr>ra = Some peer, nbytes = 0\<rparr>;
        rr = failed_read EOF
    in g s Outbound = G_Process l rr \<and> \<not> crashed s \<and> rr_err rr = Some EOF \<and>
       (\<exists>s'. step (Go Outbound) s = Some s' \<and>
           s' = s\<lparr>g := (g s)(Outbound := G_SendFinal l)\<rparr> \<and> logs s' = logs s \<and>
           g s' Inbound = g s Inbound \<and> orch s' = orch s \<and> \<not> crashed s' \<and>
           outputs s' = outputs s))"
proof -
  define s where "s = run [Orch, Go Inbound, Go Inbound, Orch]
              (listen_session [failed_read (OtherError ''connection refused'')])"
  define l where "l = \<lparr>ra = (None :: addr option), nbytes = 0\<rparr>"
  define rr where "rr = failed_read (OtherError ''connection refused'')"
  define e where "e = OtherError ''connection refused''"
  have 1: "g s Inbound = G_Process l rr"
    by (simp add: s_def l_def rr_def example_defs machine_defs)
  have 2: "\<not> crashed s"
    by (simp add: s_def example_defs machine_defs)
  have 3: "rr_err rr = Some e"
    by (simp add: rr_def e_def failed_read_def)
  have ne: "e \<noteq> EOF" "ra l = None" by (simp_all add: e_def l_def)
  define t where "t = run [Orch, Orch, Go Outbound]
              (TransferPackets (Some peer) ((\<lambda>_. [])(Stdin := [failed_read EOF])) (\<lambda>_. []))"
  define m where "m = \<lparr>ra = Some peer, nbytes = 0\<rparr>"
  define rq where "rq = failed_read EOF"
  have 4: "g t Outbound = G_Process m rq"
    by (simp add: t_def m_def rq_def example_defs machine_defs)
  have 5: "\<not> crashed t"
    by (simp add: t_def example_defs machine_defs)
  have 6: "rr_err rq = Some EOF"
    by (simp add: rq_def failed_read_def)
  have A: "\<exists>s'. step (Go Inbound) s = Some s' \<and>
           s' = s\<lparr>logs := logs s @ [LogError None e], g := (g s)(Inbound := G_SendFinal l)\<rparr> \<and>
           g s' Outbound = g s Outbound \<and> orch s' = orch s \<and> \<not> crashed s' \<and>
           outputs s' = outputs s"
    using read_failure_ends_direction_only [OF 1 2 3] ne by auto
  have B: "\<exists>s'. step (Go Outbound) t = Some s' \<and>
           s' = t\<lparr>g := (g t)(Outbound := G_SendFinal m)\<rparr> \<and> logs s' = logs t \<and>
           g s' Inbound = g t Inbound \<and> orch s' = orch t \<and> \<not> crashed s' \<and>
           outputs s' = outputs t"
    using read_failure_ends_direction_only [OF 4 5 6] by auto
  show ?thesis
    using 1 2 3 4 5 6 A B
    unfolding s_def l_def rr_def e_def t_def m_def rq_def Let_def by blast
qed

text \<open>
  C9, as the code has it. The inbound goroutine has read, without error, a unit of three
  bytes: the disconnect sequence and one more byte. Its next step leaves the loop and
  writes nothing; the state of the outbound goroutine, the set of closed resources and
  the pending input are unchanged, and the next step of the outbound goroutine is what
  it would have been without that step.
\<close>

theorem marker_line_stops_inbound_only:
  assumes "g s Inbound = G_Process l rr" and "\<not> crashed s"
    and "rr_err rr = None" and "rr_data rr = UDPDisconnectSequence @ [c]"
  shows "\<exists>s'. step (Go Inbound) s = Some s' \<and> g s' Inbound = G_SendFinal l \<and>
           outputs s' = outputs s \<and> g s' Outbound = g s Outbound \<and>
           closed s' = closed s \<and> rd_script s' = rd_script s \<and> \<not> crashed s' \<and>
           step (Go Outbound) s' =
             map_option (\<lambda>t. t\<lparr>g := (g t)(Inbound := G_SendFinal l)\<rparr>) (step (Go Outbound) s)"
proof -
  have "butlast (rr_data rr) = UDPDisconnectSequence"
    using assms(4) by simp
  then have "step (Go Inbound) s = Some (s\<lparr>g := (g s)(Inbound := G_SendFinal l)\<rparr>)"
    using assms(1,2,3) by (simp add: step_def copy_step_def process_marker)
  then show ?thesis
    using assms(2) by (simp add: step_Outbound_frame)
qed

theorem marker_line_stops_inbound_only_witness:
  "(let s = run (take 10 demo_schedule) demo_session;
        l = \<lparr>ra = Some peer, nbytes = 16\<rparr>;
        rr = unit_from other_peer (''~.'' @ [CHR 0x0A])
    in g s Inbound = G_Process l rr \<and> \<not> crashed s \<and> rr_err rr = None \<and>
       rr_data rr = UDPDisconnectSequence @ [CHR 0x0A] \<and>
       g s Outbound = G_Loop \<lparr>ra = Some peer, nbytes = 2\<rparr> \<and>
       (\<exists>s'. step (Go Inbound) s = Some s' \<and> g s' Inbound = G_SendFinal l \<and>
           outputs s' = outputs s \<and> g s' Outbound = g s Outbound \<and>
           closed s' = closed s \<and> rd_script s' = rd_script s \<and> \<not> crashed s' \<and>
           step (Go Outbound) s' =
             map_option (\<lambda>t. t\<lparr>g := (g t)(Inbound := G_SendFinal l)\<rparr>) (step (Go Outbound) s)))"
proof -
  define s where "s = run (take 10 demo_schedule) demo_session"
  define l where "l = \<lparr>ra = Some peer, nbytes = 16 :: 64 word\<rparr>"
  define rr where "rr = unit_from other_peer (''~.'' @ [CHR 0x0A])"
  have 1: "g s Inbound = G_Process l rr"
    by (simp add: s_def l_def rr_def demo_schedule_def demo_session_def demo_rd_def
          other_peer_def example_defs machine_defs)
  have 2: "\<not> crashed s"
    by (simp add: s_def demo_schedule_def demo_session_def demo_rd_def
          other_peer_def example_defs machine_defs)
  have 3: "rr_err rr = None" and 4: "rr_data rr = UDPDisconnectSequence @ [CHR 0x0A]"
    by (simp_all add: rr_def unit_from_def UDPDisconnectSequence_def)
  have 5: "g s Outbound = G_Loop \<lparr>ra = Some peer, nbytes = 2\<rparr>"
    by (simp add: s_def demo_schedule_def demo_session_def demo_rd_def
          other_peer_def example_defs machine_defs)
  show ?thesis
    using 1 2 3 4 5 marker_line_stops_inbound_only [OF 1 2 3 4]
    unfolding s_def l_def rr_def Let_def by blast
qed

text \<open>
  C9, as stated, fails: a listening endpoint receives a unit that is exactly the two bytes
  of the disconnect sequence. Line 87 compares \<^verbatim>\<open>buf[0:1]\<close> with the sequence, so the unit
  is written to standard output and the inbound goroutine goes on with its loop.
\<close>

theorem two_byte_marker_is_forwarded:
  "(let s = run [Orch, Go Inbound, Go Inbound, Orch, Go Inbound]
              (listen_session [unit_from peer UDPDisconnectSequence])
    in outputs s = [\<lparr>ev_res = Stdout, ev_data = ''~.'', ev_dest = PreBound, ev_err = None\<rparr>] \<and>
       g s Inbound = G_Loop \<lparr>ra = Some peer, nbytes = 2\<rparr> \<and> \<not> crashed s)"
  by (simp add: example_defs machine_defs)

text \<open>
  C10. A listening endpoint whose first read of \<^verbatim>\<open>con\<close> returns \<open>first\<close>, whatever it is
  (an error, the disconnect line, an empty unit). After the read, the address report and
  line 115, the report has been sent with the address of \<open>first\<close>, the outbound goroutine
  has been launched with that address, and the inbound goroutine still stands before line
  81 with the result of the read unexamined. Under any schedule, when the reads of
  \<^verbatim>\<open>con\<close> follow the contract of \<^verbatim>\<open>ReadFrom\<close> (\<open>addr_ok\<close>), the address reports sent are
  none before \<^verbatim>\<open>TransferPackets\<close> has received one and exactly that one afterwards.
\<close>

theorem address_report_precedes_examination:
  assumes "rd Con = first # rest"
  shows "sent (run [Orch, Go Inbound, Go Inbound, Orch] (TransferPackets None rd wr)) =
           [(Inbound, AddrReport, \<lparr>remoteAddr = rr_addr first, bytes = 0\<rparr>)] \<and>
         g (run [Orch, Go Inbound, Go Inbound, Orch] (TransferPackets None rd wr)) Inbound =
           G_Process \<lparr>ra = rr_addr first, nbytes = 0\<rparr>
             (first\<lparr>rr_data := take BufferLimit (rr_data first)\<rparr>) \<and>
         g (run [Orch, Go Inbound, Go Inbound, Orch] (TransferPackets None rd wr)) Outbound =
           G_Loop \<lparr>ra = rr_addr first, nbytes = 0\<rparr> \<and>
         orch (run [Orch, Go Inbound, Go Inbound, Orch] (TransferPackets None rd wr)) = O_Wait1 \<and>
         outputs (run [Orch, Go Inbound, Go Inbound, Orch] (TransferPackets None rd wr)) = [] \<and>
         logs (run [Orch, Go Inbound, Go Inbound, Orch] (TransferPackets None rd wr)) =
           [LogDatagramReceived (rr_addr first)] \<and>
         (list_all addr_ok (rd Con) \<longrightarrow>
            (\<forall>sch. addr_reports (sent (run sch (TransferPackets None rd wr))) =
               (if orch (run sch (TransferPackets None rd wr)) = O_Init \<or>
                   orch (run sch (TransferPackets None rd wr)) = O_WaitAddr
                then [] else [(Inbound, rr_addr first)])))"
proof -
  have fa: "first_addr (rd Con) = rr_addr first"
    using assms by (simp add: first_addr_def)
  have 1: "addr_reports (sent (run sch (TransferPackets None rd wr))) =
               (if orch (run sch (TransferPackets None rd wr)) = O_Init \<or>
                   orch (run sch (TransferPackets None rd wr)) = O_WaitAddr
                then [] else [(Inbound, rr_addr first)])"
    if wf: "list_all addr_ok (rd Con)" for sch
  proof -
    let ?s = "run sch (TransferPackets None rd wr)"
    have "listen_inv (rd Con) ?s" using wf by (rule run_listen_inv)
    then have a: "addr_inv (rd Con) ?s" by (simp add: listen_inv_def)
    show ?thesis
    proof (cases "orch ?s = O_Init \<or> orch ?s = O_WaitAddr")
      case True
      then show ?thesis using a by (auto simp: addr_inv_def addr_reports_def)
    next
      case False
      then have "sent_ok (rr_addr first) (sent ?s)" using a fa by (auto simp: addr_inv_def)
      then have "addr_reports (sent ?s) = [(Inbound, rr_addr first)]"
        by (rule sent_ok_addr_reports)
      then show ?thesis using False by simp
    qed
  qed
  have 2: "sent (run [Orch, Go Inbound, Go Inbound, Orch] (TransferPackets None rd wr)) =
           [(Inbound, AddrReport, \<lparr>remoteAddr = rr_addr first, bytes = 0\<rparr>)]"
    using assms by (simp add: machine_defs)
  have 3: "g (run [Orch, Go Inbound, Go Inbound, Orch] (TransferPackets None rd wr)) Inbound =
           G_Process \<lparr>ra = rr_addr first, nbytes = 0\<rparr>
             (first\<lparr>rr_data := take BufferLimit (rr_data first)\<rparr>)"
    using assms by (simp add: machine_defs)
  have 4: "g (run [Orch, Go Inbound, Go Inbound, Orch] (TransferPackets None rd wr)) Outbound =
           G_Loop \<lparr>ra = rr_addr first, nbytes = 0\<rparr>"
    using assms by (simp add: machine_defs)
  have 5: "orch (run [Orch, Go Inbound, Go Inbound, Orch] (TransferPackets None rd wr)) = O_Wait1"
    using assms by (simp add: machine_defs)
  have 6: "outputs (run [Orch, Go Inbound, Go Inbound, Orch] (TransferPackets None rd wr)) = []"
    using assms by (simp add: machine_defs)
  have 7: "logs (run [Orch, Go Inbound, Go Inbound, Orch] (TransferPackets None rd wr)) =
           [LogDatagramReceived (rr_addr first)]"
    using assms by (simp add: machine_defs)
  show ?thesis using 1 2 3 4 5 6 7 by blast
qed

theorem address_report_precedes_examination_witness:
  "refused_rd Con = failed_read (OtherError ''connection refused'') # [] \<and>
   list_all addr_ok (refused_rd Con) \<and>
   sent (run [Orch, Go Inbound, Go Inbound, Orch] (TransferPackets None refused_rd (\<lambda>_. []))) =
     [(Inbound, AddrReport, \<lparr>remoteAddr = None, bytes = 0\<rparr>)] \<and>
   g (run [Orch, Go Inbound, Go Inbound, Orch] (TransferPackets None refused_rd (\<lambda>_. []))) Outbound =
     G_Loop \<lparr>ra = None, nbytes = 0\<rparr> \<and>
   g (run [Orch, Go Inbound, Go Inbound, Orch, Go Inbound, Go Inbound]
        (TransferPackets None refused_rd (\<lambda>_. []))) Inbound = G_Done \<and>
   addr_reports (sent (run [Orch, Go Inbound, Go Inbound, Orch, Go Inbound, Go Inbound]
        (TransferPackets None refused_rd (\<lambda>_. [])))) = [(Inbound, None)]"
proof -
  have rd: "refused_rd Con = failed_read (OtherError ''connection refused'') # []"
    by (simp add: refused_rd_def)
  have wf: "list_all addr_ok (refused_rd Con)"
    by (simp add: refused_rd_def addr_ok_def failed_read_def)
  have o: "orch (run [Orch, Go Inbound, Go Inbound, Orch, Go Inbound, Go Inbound]
        (TransferPackets None refused_rd (\<lambda>_. []))) = O_Wait2"
    and d: "g (run [Orch, Go Inbound, Go Inbound, Orch, Go Inbound, Go Inbound]
        (TransferPackets None refused_rd (\<lambda>_. []))) Inbound = G_Done"
    by (simp_all add: refused_rd_def failed_read_def machine_defs)
  have a: "rr_addr (failed_read (OtherError ''connection refused'')) = None"
    by (simp add: failed_read_def)
  note th = address_report_precedes_examination [where rd = refused_rd and wr = "\<lambda>_. []", OF rd]
  let ?s2 = "run [Orch, Go Inbound, Go Inbound, Orch, Go Inbound, Go Inbound]
        (TransferPackets None refused_rd (\<lambda>_. []))"
  from th wf have "\<forall>sch. addr_reports (sent (run sch (TransferPackets None refused_rd (\<lambda>_. [])))) =
     (if orch (run sch (TransferPackets None refused_rd (\<lambda>_. []))) = O_Init \<or>
         orch (run sch (TransferPackets None refused_rd (\<lambda>_. []))) = O_WaitAddr
      then [] else [(Inbound, rr_addr (failed_read (OtherError ''connection refused'')))])"
    by blast
  then have "addr_reports (sent ?s2) =
     (if orch ?s2 = O_Init \<or> orch ?s2 = O_WaitAddr
      then [] else [(Inbound, rr_addr (failed_read (OtherError ''connection refused'')))])"
    by (rule spec)
  then have r: "addr_reports (sent ?s2) = [(Inbound, None)]"
    unfolding o a by simp
  show ?thesis
    using rd wf d r th unfolding a by blast
qed

end
